theory Spec2Isabelle
  imports Complex_Main "HOL-Library.AList" "HOL-Library.Product_Lexorder"
begin

section \<open>Data model\<close>

text \<open>
  The photovoltaic sizing engine of \<^verbatim>\<open>main.py\<close> and \<^verbatim>\<open>analysis_module.py\<close>.
  Python floats are idealised as real numbers: every sum, difference, product and
  quotient below is the exact one, so rounding, overflow, infinities and NaN are outside
  the model. The one exception is the constraint checks of the objective function, whose
  outcome jumps at the thresholds: there the rounding of each float operation is
  explicit. Python integers are \<open>int\<close>.

  Exceptions are values: a function that can raise returns \<open>py_error + 'a\<close>.
  \<open>ComplexValue\<close> is not an exception: it stands for the one place where Python leaves
  the real numbers (a negative base raised to a fractional power is a \<^verbatim>\<open>complex\<close>).
\<close>

datatype py_error = ZeroDivisionError | ValueError | KeyError | ComplexValue

text \<open>
  A naive \<^verbatim>\<open>datetime.datetime\<close>. Equality of the record is Python's \<^verbatim>\<open>==\<close> on naive
  datetimes (the \<^verbatim>\<open>fold\<close> attribute takes no part in it and is left out).
\<close>

record datetime =
  year :: int
  month :: int
  day :: int
  hour :: int
  minute :: int
  second :: int
  microsecond :: int

definition is_leap :: "int \<Rightarrow> bool" where
  "is_leap y = (y mod 4 = 0 \<and> (y mod 100 \<noteq> 0 \<or> y mod 400 = 0))"

definition days_in_month :: "int \<Rightarrow> int \<Rightarrow> int" where
  "days_in_month y m =
     (if m = 2 then (if is_leap y then 29 else 28)
      else if m = 4 \<or> m = 6 \<or> m = 9 \<or> m = 11 then 30 else 31)"

text \<open>The values the \<^verbatim>\<open>datetime\<close> constructor accepts (\<^verbatim>\<open>MINYEAR = 1\<close>, \<^verbatim>\<open>MAXYEAR = 9999\<close>).\<close>

definition valid_date :: "int \<Rightarrow> int \<Rightarrow> int \<Rightarrow> bool" where
  "valid_date y m d =
     (1 \<le> y \<and> y \<le> 9999 \<and> 1 \<le> m \<and> m \<le> 12 \<and> 1 \<le> d \<and> d \<le> days_in_month y m)"

definition valid_datetime :: "datetime \<Rightarrow> bool" where
  "valid_datetime t =
     (valid_date (year t) (month t) (day t) \<and> 0 \<le> hour t \<and> hour t < 24 \<and>
      0 \<le> minute t \<and> minute t < 60 \<and> 0 \<le> second t \<and> second t < 60 \<and>
      0 \<le> microsecond t \<and> microsecond t < 1000000)"

text \<open>\<^verbatim>\<open>time.date()\<close>: the calendar day as (year, month, day).\<close>

definition date :: "datetime \<Rightarrow> int \<times> int \<times> int" where
  "date t = (year t, month t, day t)"

text \<open>
  \<^verbatim>\<open>time.replace(year=y)\<close> builds a new datetime from the old fields and the new year; the
  constructor raises \<^verbatim>\<open>ValueError\<close> when the year is out of range or the day does not
  exist in that year's month (29 February in a common year). The time-of-day fields are
  copied from a datetime that already passed the constructor.
\<close>

definition replace_year :: "datetime \<Rightarrow> int \<Rightarrow> py_error + datetime" where
  "replace_year t y =
     (if valid_date y (month t) (day t) then Inr (t\<lparr>year := y\<rparr>) else Inl ValueError)"

text \<open>The helper classes \<^verbatim>\<open>Consumer\<close> and \<^verbatim>\<open>Production\<close> (fields prefixed, since both
  classes call theirs \<^verbatim>\<open>val\<close> and \<^verbatim>\<open>time\<close>).\<close>

record Consumer =
  c_type_id :: int
  c_type :: string
  c_time :: datetime
  c_val :: real

record Production =
  p_val :: real
  p_time :: datetime

subsection \<open>Dictionaries\<close>

text \<open>
  A Python \<^verbatim>\<open>dict\<close> is an association list in insertion order with distinct keys.
  \<open>dict_set\<close> is \<^verbatim>\<open>d[k] = v\<close>: it overwrites in place or appends a new key at the end.
  \<open>dict_item\<close> is \<^verbatim>\<open>d[k]\<close>, which raises \<^verbatim>\<open>KeyError\<close>; \<open>dict_get\<close> is \<^verbatim>\<open>d.get(k, dflt)\<close>;
  \<open>dict_has\<close> is \<^verbatim>\<open>k in d\<close>.
\<close>

type_synonym ('k, 'v) dict = "('k \<times> 'v) list"

definition dict_set :: "('k, 'v) dict \<Rightarrow> 'k \<Rightarrow> 'v \<Rightarrow> ('k, 'v) dict" where
  "dict_set d k v = AList.update k v d"

definition dict_item :: "('k, 'v) dict \<Rightarrow> 'k \<Rightarrow> py_error + 'v" where
  "dict_item d k = (case map_of d k of None \<Rightarrow> Inl KeyError | Some v \<Rightarrow> Inr v)"

definition dict_get :: "('k, 'v) dict \<Rightarrow> 'k \<Rightarrow> 'v \<Rightarrow> 'v" where
  "dict_get d k dflt = (case map_of d k of None \<Rightarrow> dflt | Some v \<Rightarrow> v)"

definition dict_has :: "('k, 'v) dict \<Rightarrow> 'k \<Rightarrow> bool" where
  "dict_has d k = (case map_of d k of None \<Rightarrow> False | Some v \<Rightarrow> True)"

section \<open>SampleAggregator: \<^verbatim>\<open>DatabaseManager.get_cons_by_constype\<close>\<close>

text \<open>
  \<open>rows\<close> is the result of \<^verbatim>\<open>cursor.fetchall()\<close>: triples (ApplianceIDREF, EpochTime,
  Value). \<open>utcfromtimestamp\<close> is \<^verbatim>\<open>datetime.datetime.utcfromtimestamp\<close>, a parameter. The
  loop \<^verbatim>\<open>for i in range(0, len(rows), 6)\<close> runs over the start indices; \<^verbatim>\<open>break\<close> returns
  what has been collected. The body is the same in both source files.
\<close>

definition range_step6 :: "nat \<Rightarrow> nat list" where
  "range_step6 n = map (\<lambda>k. 6 * k) [0..<(n + 5) div 6]"

fun cons_loop ::
  "(int \<Rightarrow> datetime) \<Rightarrow> (int \<times> int \<times> real) list \<Rightarrow> string \<Rightarrow> nat list \<Rightarrow>
   Consumer list \<Rightarrow> Consumer list" where
  "cons_loop utcfromtimestamp rows consumer [] consumers = consumers"
| "cons_loop utcfromtimestamp rows consumer (i # is) consumers =
     (let group = take 6 (drop i rows) in
      if length group < 6 then consumers
      else
        let ApplianceIDREF = fst (group ! 0);
            EpochTime = fst (snd (group ! 5));
            Value = sum_list (map (\<lambda>row. snd (snd row)) group);
            consumer_obj = \<lparr>c_type_id = ApplianceIDREF, c_type = consumer,
                            c_time = utcfromtimestamp EpochTime, c_val = Value\<rparr>
        in cons_loop utcfromtimestamp rows consumer is (consumers @ [consumer_obj]))"

definition get_cons_by_constype ::
  "(int \<Rightarrow> datetime) \<Rightarrow> (int \<times> int \<times> real) list \<Rightarrow> string \<Rightarrow> Consumer list" where
  "get_cons_by_constype utcfromtimestamp rows consumer =
     cons_loop utcfromtimestamp rows consumer (range_step6 (length rows)) []"

text \<open>The hourly entry the specification prescribes for the \<open>k\<close>-th complete group of six
  samples: appliance of the first sample, timestamp of the sixth, sum of the six values.\<close>

definition hourly_entry ::
  "(int \<Rightarrow> datetime) \<Rightarrow> (int \<times> int \<times> real) list \<Rightarrow> string \<Rightarrow> nat \<Rightarrow> Consumer" where
  "hourly_entry conv rows consumer k =
     \<lparr>c_type_id = fst (rows ! (6 * k)), c_type = consumer,
      c_time = conv (fst (snd (rows ! (6 * k + 5)))),
      c_val = (\<Sum>j<6. snd (snd (rows ! (6 * k + j))))\<rparr>"

section \<open>ProductionModel: \<^verbatim>\<open>DatabaseManager.get_production\<close>\<close>

text \<open>\<open>rows\<close> are the pairs (Value, EpochTime) of the irradiance query; \<open>fromtimestamp\<close> is
  \<^verbatim>\<open>datetime.datetime.fromtimestamp\<close> (local time), a parameter.\<close>

definition get_production ::
  "(int \<Rightarrow> datetime) \<Rightarrow> (real \<times> int) list \<Rightarrow> real \<Rightarrow> int \<Rightarrow> real \<Rightarrow> Production list" where
  "get_production fromtimestamp rows nominal_power nr_panels f =
     map (\<lambda>(Value, EpochTime).
            \<lparr>p_val = nominal_power * real_of_int nr_panels * f * Value / 1000,
             p_time = fromtimestamp EpochTime\<rparr>) rows"

section \<open>HorizonExtender: \<^verbatim>\<open>extend_data_to_years\<close>\<close>

text \<open>\<open>py_range n\<close> is \<^verbatim>\<open>range(n)\<close>. \<open>extend_items\<close> is one inner \<^verbatim>\<open>for\<close> loop over the items of
  a series, \<open>extend_years\<close> the outer loop over the year offsets; a \<^verbatim>\<open>ValueError\<close> of
  \<^verbatim>\<open>replace\<close> leaves the function at once.\<close>

definition py_range :: "int \<Rightarrow> int list" where
  "py_range n = map int [0..<nat n]"

fun extend_items ::
  "int \<Rightarrow> (datetime \<times> real) list \<Rightarrow> (datetime, real) dict \<Rightarrow>
   py_error + (datetime, real) dict" where
  "extend_items yr [] extended = Inr extended"
| "extend_items yr ((time, v) # items) extended =
     (case replace_year time (year time + yr) of
        Inl e \<Rightarrow> Inl e
      | Inr new_time \<Rightarrow> extend_items yr items (dict_set extended new_time v))"

fun extend_years ::
  "int list \<Rightarrow> (datetime, real) dict \<Rightarrow> (datetime, real) dict \<Rightarrow>
   (datetime, real) dict \<times> (datetime, real) dict \<Rightarrow>
   py_error + ((datetime, real) dict \<times> (datetime, real) dict)" where
  "extend_years [] hourly_production hourly_consumption (ep, ec) = Inr (ep, ec)"
| "extend_years (yr # yrs) hourly_production hourly_consumption (ep, ec) =
     (case extend_items yr hourly_production ep of
        Inl e \<Rightarrow> Inl e
      | Inr ep' \<Rightarrow>
          (case extend_items yr hourly_consumption ec of
             Inl e \<Rightarrow> Inl e
           | Inr ec' \<Rightarrow> extend_years yrs hourly_production hourly_consumption (ep', ec')))"

definition extend_data_to_years ::
  "(datetime, real) dict \<Rightarrow> (datetime, real) dict \<Rightarrow> int \<Rightarrow>
   py_error + ((datetime, real) dict \<times> (datetime, real) dict)" where
  "extend_data_to_years hourly_production hourly_consumption years =
     extend_years (py_range years) hourly_production hourly_consumption ([], [])"

text \<open>What the specification prescribes for one series: for each offset in turn, every
  entry of the reference series with only its year rewritten.\<close>

definition shifted_series :: "(datetime, real) dict \<Rightarrow> int \<Rightarrow> (datetime, real) dict" where
  "shifted_series series years =
     concat (map (\<lambda>off. map (\<lambda>(t, v). (t\<lparr>year := year t + off\<rparr>, v)) series)
                 (py_range years))"

section \<open>EnergyBalanceCalculator: \<^verbatim>\<open>calculate_monthly_costs\<close>\<close>

text \<open>\<open>energy_loop\<close> is the first loop (over the items of the consumption series) on the
  pair of bucket dictionaries \<^verbatim>\<open>monthly_e_grid\<close>, \<^verbatim>\<open>monthly_e_injected\<close>; \<open>cost_loop\<close> is the
  second loop (over the keys of \<^verbatim>\<open>monthly_e_grid\<close>). \<open>dict_items_of d ks\<close> is the
  generator \<^verbatim>\<open>d[k] for k in ks\<close>.\<close>

type_synonym year_month = "int \<times> int"

fun energy_loop ::
  "(datetime, real) dict \<Rightarrow> (datetime \<times> real) list \<Rightarrow>
   (year_month, real) dict \<times> (year_month, real) dict \<Rightarrow>
   py_error + ((year_month, real) dict \<times> (year_month, real) dict)" where
  "energy_loop hourly_production [] (monthly_e_grid, monthly_e_injected) =
     Inr (monthly_e_grid, monthly_e_injected)"
| "energy_loop hourly_production ((time, consumption) # items)
       (monthly_e_grid, monthly_e_injected) =
     (let production = dict_get hourly_production time 0;
          year_month = (year time, month time);
          monthly_e_grid =
            (if \<not> dict_has monthly_e_grid year_month
             then dict_set monthly_e_grid year_month 0 else monthly_e_grid);
          monthly_e_injected =
            (if \<not> dict_has monthly_e_injected year_month
             then dict_set monthly_e_injected year_month 0 else monthly_e_injected)
      in if consumption > production then
           (case dict_item monthly_e_grid year_month of
              Inl e \<Rightarrow> Inl e
            | Inr e_grid \<Rightarrow>
                energy_loop hourly_production items
                  (dict_set monthly_e_grid year_month
                     (e_grid + (consumption - production) / 1000),
                   monthly_e_injected))
         else
           (case dict_item monthly_e_injected year_month of
              Inl e \<Rightarrow> Inl e
            | Inr e_injected \<Rightarrow>
                energy_loop hourly_production items
                  (monthly_e_grid,
                   dict_set monthly_e_injected year_month
                     (e_injected + (production - consumption) / 1000))))"

fun dict_items_of :: "('k, 'v) dict \<Rightarrow> 'k list \<Rightarrow> py_error + 'v list" where
  "dict_items_of d [] = Inr []"
| "dict_items_of d (k # ks) =
     (case dict_item d k of
        Inl e \<Rightarrow> Inl e
      | Inr v \<Rightarrow> (case dict_items_of d ks of Inl e \<Rightarrow> Inl e | Inr vs \<Rightarrow> Inr (v # vs)))"

fun cost_loop ::
  "(datetime, real) dict \<Rightarrow> real \<Rightarrow> real \<Rightarrow>
   (year_month, real) dict \<Rightarrow> (year_month, real) dict \<Rightarrow> year_month list \<Rightarrow>
   (year_month, real \<times> real) dict \<Rightarrow> py_error + (year_month, real \<times> real) dict" where
  "cost_loop hourly_consumption c_grid c_DAM monthly_e_grid monthly_e_injected []
       monthly_costs = Inr monthly_costs"
| "cost_loop hourly_consumption c_grid c_DAM monthly_e_grid monthly_e_injected
       (year_month # yms) monthly_costs =
     (case dict_items_of hourly_consumption
             (filter (\<lambda>time. (year time, month time) = year_month)
                     (map fst hourly_consumption)) of
        Inl e \<Rightarrow> Inl e
      | Inr cs \<Rightarrow>
          (let cost_without_panels = sum_list cs / 1000 * c_grid in
           case dict_item monthly_e_grid year_month of
             Inl e \<Rightarrow> Inl e
           | Inr e_grid \<Rightarrow>
               (case dict_item monthly_e_injected year_month of
                  Inl e \<Rightarrow> Inl e
                | Inr e_injected \<Rightarrow>
                    (let cost_with_panels = e_grid * c_grid - e_injected * c_DAM in
                     cost_loop hourly_consumption c_grid c_DAM monthly_e_grid
                       monthly_e_injected yms
                       (dict_set monthly_costs year_month
                          (cost_without_panels, cost_with_panels))))))"

definition calculate_monthly_costs ::
  "(datetime, real) dict \<Rightarrow> (datetime, real) dict \<Rightarrow> real \<Rightarrow> real \<Rightarrow>
   py_error + (year_month, real \<times> real) dict" where
  "calculate_monthly_costs hourly_production hourly_consumption c_grid c_DAM =
     (case energy_loop hourly_production hourly_consumption ([], []) of
        Inl e \<Rightarrow> Inl e
      | Inr (monthly_e_grid, monthly_e_injected) \<Rightarrow>
          cost_loop hourly_consumption c_grid c_DAM monthly_e_grid monthly_e_injected
            (map fst monthly_e_grid) [])"

text \<open>The two bucket sums and the consumption sum of a month, as the specification words
  them: over the hours of the consumption series that fall in the month, the deficits
  (in kWh) of the hours with consumption above production, the surpluses of the others,
  and the consumption itself.\<close>

definition month_items :: "(datetime, real) dict \<Rightarrow> year_month \<Rightarrow> (datetime \<times> real) list" where
  "month_items hourly_consumption ym =
     filter (\<lambda>(t, c). (year t, month t) = ym) hourly_consumption"

definition grid_energy_kwh ::
  "(datetime, real) dict \<Rightarrow> (datetime, real) dict \<Rightarrow> year_month \<Rightarrow> real" where
  "grid_energy_kwh hourly_production hourly_consumption ym =
     sum_list (map (\<lambda>(t, c). (c - dict_get hourly_production t 0) / 1000)
                (filter (\<lambda>(t, c). c > dict_get hourly_production t 0)
                        (month_items hourly_consumption ym)))"

definition injected_energy_kwh ::
  "(datetime, real) dict \<Rightarrow> (datetime, real) dict \<Rightarrow> year_month \<Rightarrow> real" where
  "injected_energy_kwh hourly_production hourly_consumption ym =
     sum_list (map (\<lambda>(t, c). (dict_get hourly_production t 0 - c) / 1000)
                (filter (\<lambda>(t, c). \<not> c > dict_get hourly_production t 0)
                        (month_items hourly_consumption ym)))"

definition month_consumption :: "(datetime, real) dict \<Rightarrow> year_month \<Rightarrow> real" where
  "month_consumption hourly_consumption ym =
     sum_list (map snd (month_items hourly_consumption ym))"

section \<open>FinancialEvaluator: \<^verbatim>\<open>calculate_npv\<close>\<close>

text \<open>
  \<open>py_pow b e\<close> is Python's \<^verbatim>\<open>b ** e\<close> on floats: \<^verbatim>\<open>x ** 0.0\<close> is \<^verbatim>\<open>1.0\<close> for every \<^verbatim>\<open>x\<close>,
  a zero base gives \<^verbatim>\<open>0.0\<close> for a positive exponent and raises for a negative one, a
  negative base gives a real only for an integral exponent and a \<^verbatim>\<open>complex\<close> otherwise.
  (HOL's \<open>0 powr 0\<close> is \<open>0\<close>, so the exponent is tested first.)
\<close>

definition py_pow :: "real \<Rightarrow> real \<Rightarrow> py_error + real" where
  "py_pow b e =
     (if e = 0 then Inr 1
      else if b > 0 then Inr (b powr e)
      else if b = 0 then (if e > 0 then Inr 0 else Inl ZeroDivisionError)
      else if real_of_int \<lfloor>e\<rfloor> = e
        then Inr (if e \<ge> 0 then b ^ nat \<lfloor>e\<rfloor> else 1 / b ^ nat \<lfloor>- e\<rfloor>)
      else Inl ComplexValue)"

text \<open>\<open>npv_loop\<close> is the loop \<^verbatim>\<open>for t, year_month in enumerate(sorted_months, start=1)\<close>,
  with the counter \<open>t\<close> and the pair (\<^verbatim>\<open>npv\<close>, \<^verbatim>\<open>monthly_npv_values\<close>) as state. The
  division raises when the discount factor is zero.\<close>

fun npv_loop ::
  "(year_month, real \<times> real) dict \<Rightarrow> real \<Rightarrow> real \<Rightarrow> nat \<Rightarrow> year_month list \<Rightarrow>
   real \<times> (year_month \<times> real) list \<Rightarrow> py_error + (real \<times> (year_month \<times> real) list)" where
  "npv_loop monthly_costs OpEX r t [] (npv, monthly_npv_values) =
     Inr (npv, monthly_npv_values)"
| "npv_loop monthly_costs OpEX r t (year_month # rest) (npv, monthly_npv_values) =
     (case dict_item monthly_costs year_month of
        Inl e \<Rightarrow> Inl e
      | Inr (cost_without_panels, cost_with_panels) \<Rightarrow>
          (let G_t = cost_without_panels - cost_with_panels in
           case py_pow (1 + r) ((real t - 1) / 12) of
             Inl e \<Rightarrow> Inl e
           | Inr discount \<Rightarrow>
               if discount = 0 then Inl ZeroDivisionError
               else
                 (let npv = npv + (G_t - OpEX / 12) / discount in
                  npv_loop monthly_costs OpEX r (Suc t) rest
                    (npv, monthly_npv_values @ [(year_month, npv)]))))"

definition calculate_npv ::
  "(year_month, real \<times> real) dict \<Rightarrow> real \<Rightarrow> real \<Rightarrow> int \<Rightarrow>
   py_error + (real \<times> (year_month \<times> real) list)" where
  "calculate_npv monthly_costs CapEX r Y =
     (let OpEX = 0.03 * CapEX;
          npv = - CapEX;
          sorted_months = sort (map fst monthly_costs)
      in npv_loop monthly_costs OpEX r 1 sorted_months (npv, []))"

text \<open>The recurrence in the specification's words, over the sorted sequence of monthly
  records (key, costWithoutPV, costWithPV): the discounted term of the month with index
  \<open>t = 1, 2, \<dots>\<close>, and the value of \<^verbatim>\<open>npv\<close> after the first \<open>n\<close> months.\<close>

definition npv_term ::
  "real \<Rightarrow> real \<Rightarrow> (year_month \<times> real \<times> real) list \<Rightarrow> nat \<Rightarrow> real" where
  "npv_term CapEX r records t =
     (fst (snd (records ! (t - 1))) - snd (snd (records ! (t - 1))) - 0.03 * CapEX / 12)
       / (1 + r) powr ((real t - 1) / 12)"

definition npv_after ::
  "real \<Rightarrow> real \<Rightarrow> (year_month \<times> real \<times> real) list \<Rightarrow> nat \<Rightarrow> real" where
  "npv_after CapEX r records n = - CapEX + (\<Sum>t = 1..n. npv_term CapEX r records t)"

section \<open>IndicatorEngine: the daily indicators of \<^verbatim>\<open>EnergyAnalysis\<close>\<close>

text \<open>
  \<open>group_loop\<close> is the grouping loop the three \<^verbatim>\<open>calculate_*_daily\<close> methods start with
  (twice each): the values of a series are appended to the list of their calendar day.
  \<open>daily_loop\<close> is their common last loop, over the days of the production grouping that
  also are in the consumption grouping; the three methods differ only in the figure
  \<open>f prod_values cons_values\<close> they store for the day.
\<close>

type_synonym cal_date = "int \<times> int \<times> int"

fun group_loop ::
  "(datetime \<times> real) list \<Rightarrow> (cal_date, real list) dict \<Rightarrow>
   py_error + (cal_date, real list) dict" where
  "group_loop [] grouped = Inr grouped"
| "group_loop ((time, v) # items) grouped =
     (let dy = date time;
          grouped = (if \<not> dict_has grouped dy then dict_set grouped dy [] else grouped)
      in case dict_item grouped dy of
           Inl e \<Rightarrow> Inl e
         | Inr vs \<Rightarrow> group_loop items (dict_set grouped dy (vs @ [v])))"

fun daily_loop ::
  "(real list \<Rightarrow> real list \<Rightarrow> real) \<Rightarrow> (cal_date, real list) dict \<Rightarrow>
   (cal_date, real list) dict \<Rightarrow> cal_date list \<Rightarrow> (cal_date, real) dict \<Rightarrow>
   py_error + (cal_date, real) dict" where
  "daily_loop f grouped_production grouped_consumption [] daily = Inr daily"
| "daily_loop f grouped_production grouped_consumption (dy # days) daily =
     (if dict_has grouped_consumption dy then
        (case dict_item grouped_production dy of
           Inl e \<Rightarrow> Inl e
         | Inr prod_values \<Rightarrow>
             (case dict_item grouped_consumption dy of
                Inl e \<Rightarrow> Inl e
              | Inr cons_values \<Rightarrow>
                  daily_loop f grouped_production grouped_consumption days
                    (dict_set daily dy (f prod_values cons_values))))
      else daily_loop f grouped_production grouped_consumption days daily)"

definition daily_indicator ::
  "(real list \<Rightarrow> real list \<Rightarrow> real) \<Rightarrow> (datetime, real) dict \<Rightarrow> (datetime, real) dict \<Rightarrow>
   py_error + (cal_date, real) dict" where
  "daily_indicator f hourly_production hourly_consumption =
     (case group_loop hourly_production [] of
        Inl e \<Rightarrow> Inl e
      | Inr grouped_production \<Rightarrow>
          (case group_loop hourly_consumption [] of
             Inl e \<Rightarrow> Inl e
           | Inr grouped_consumption \<Rightarrow>
               daily_loop f grouped_production grouped_consumption
                 (map fst grouped_production) []))"

definition sum_min_prod_load :: "real list \<Rightarrow> real list \<Rightarrow> real" where
  "sum_min_prod_load prod_values cons_values =
     sum_list (map (\<lambda>(p, c). min p c) (zip prod_values cons_values))"

definition self_consumption_day :: "real list \<Rightarrow> real list \<Rightarrow> real" where
  "self_consumption_day prod_values cons_values =
     (let sum_total_production = sum_list prod_values in
      if sum_total_production \<noteq> 0
      then sum_min_prod_load prod_values cons_values / sum_total_production else 0)"

definition self_sufficiency_day :: "real list \<Rightarrow> real list \<Rightarrow> real" where
  "self_sufficiency_day prod_values cons_values =
     (let sum_total_consumption = sum_list cons_values in
      if sum_total_consumption \<noteq> 0
      then sum_min_prod_load prod_values cons_values / sum_total_consumption else 0)"

definition neeg_day :: "real list \<Rightarrow> real list \<Rightarrow> real" where
  "neeg_day prod_values cons_values =
     sum_list (map (\<lambda>(p, c). \<bar>p - c\<bar>) (zip prod_values cons_values)) / 1000"

definition calculate_self_consumption_daily ::
  "(datetime, real) dict \<Rightarrow> (datetime, real) dict \<Rightarrow> py_error + (cal_date, real) dict" where
  "calculate_self_consumption_daily hourly_production hourly_consumption =
     daily_indicator self_consumption_day hourly_production hourly_consumption"

definition calculate_self_sufficiency_daily ::
  "(datetime, real) dict \<Rightarrow> (datetime, real) dict \<Rightarrow> py_error + (cal_date, real) dict" where
  "calculate_self_sufficiency_daily hourly_production hourly_consumption =
     daily_indicator self_sufficiency_day hourly_production hourly_consumption"

definition calculate_neeg_daily ::
  "(datetime, real) dict \<Rightarrow> (datetime, real) dict \<Rightarrow> py_error + (cal_date, real) dict" where
  "calculate_neeg_daily hourly_production hourly_consumption =
     daily_indicator neeg_day hourly_production hourly_consumption"

text \<open>The aggregate means divide by \<^verbatim>\<open>len(...)\<close> with no guard.\<close>

definition calculate_total_self_consumption :: "(cal_date, real) dict \<Rightarrow> py_error + real" where
  "calculate_total_self_consumption daily_self_consumption =
     (if length daily_self_consumption = 0 then Inl ZeroDivisionError
      else Inr (sum_list (map snd daily_self_consumption)
                / real (length daily_self_consumption)))"

definition calculate_total_self_sufficiency :: "(cal_date, real) dict \<Rightarrow> py_error + real" where
  "calculate_total_self_sufficiency daily_self_sufficiency =
     (if length daily_self_sufficiency = 0 then Inl ZeroDivisionError
      else Inr (sum_list (map snd daily_self_sufficiency)
                / real (length daily_self_sufficiency)))"

definition calculate_total_neeg :: "(cal_date, real) dict \<Rightarrow> real" where
  "calculate_total_neeg daily_neeg = sum_list (map snd daily_neeg)"

text \<open>The entries of a series that fall on a calendar day, in iteration order.\<close>

definition day_items :: "(datetime, real) dict \<Rightarrow> cal_date \<Rightarrow> (datetime \<times> real) list" where
  "day_items series dy = filter (\<lambda>(t, v). date t = dy) series"

section \<open>ObjectiveFunction: \<^verbatim>\<open>npv_function\<close>\<close>

text \<open>The module-level constants of \<^verbatim>\<open>main.py\<close> (prefixed, as \<open>r\<close> and \<open>Y\<close> are variables
  elsewhere) and the panel catalogue.\<close>

definition glob_c_grid :: real where "glob_c_grid = 0.25"
definition glob_c_DAM :: real where "glob_c_DAM = 0.1"
definition glob_r :: real where "glob_r = 0.05"
definition glob_Y :: int where "glob_Y = 5"

record panel =
  panel_power :: int
  cost_per_watt :: real

definition panel_low_cost :: panel where
  "panel_low_cost = \<lparr>panel_power = 200, cost_per_watt = 0.16\<rparr>"
definition panel_standard :: panel where
  "panel_standard = \<lparr>panel_power = 300, cost_per_watt = 0.22\<rparr>"
definition panel_high_efficiency :: panel where
  "panel_high_efficiency = \<lparr>panel_power = 415, cost_per_watt = 0.31\<rparr>"

text \<open>
  What \<^verbatim>\<open>npv_function\<close> reads from outside: the rows the irradiance query returns (the
  same for its three calls), the rows the consumption query returns for each appliance
  id of the house, the two epoch conversions, and the two user inputs.
\<close>

record environment =
  weather_rows :: "(real \<times> int) list"
  consumption_rows :: "int \<Rightarrow> (int \<times> int \<times> real) list"
  local_time :: "int \<Rightarrow> datetime"
  utc_time :: "int \<Rightarrow> datetime"
  min_self_sufficiency :: real
  max_panels :: int

text \<open>\<^verbatim>\<open>int(x)\<close> on a float truncates toward zero.\<close>

definition py_int :: "real \<Rightarrow> int" where
  "py_int v = (if v \<ge> 0 then \<lfloor>v\<rfloor> else \<lceil>v\<rceil>)"

text \<open>\<open>production_dict\<close> is the comprehension \<^verbatim>\<open>{prod.time: prod.val for prod in ...}\<close>,
  \<open>add_production\<close> the loop that adds another panel type's series to it (the loop
  variable \<^verbatim>\<open>prod\<close> is \<open>prd\<close> here).\<close>

fun production_dict :: "Production list \<Rightarrow> (datetime, real) dict \<Rightarrow> (datetime, real) dict" where
  "production_dict [] d = d"
| "production_dict (prd # ps) d = production_dict ps (dict_set d (p_time prd) (p_val prd))"

fun add_production ::
  "Production list \<Rightarrow> (datetime, real) dict \<Rightarrow> py_error + (datetime, real) dict" where
  "add_production [] hourly_production = Inr hourly_production"
| "add_production (prd # ps) hourly_production =
     (if dict_has hourly_production (p_time prd) then
        (case dict_item hourly_production (p_time prd) of
           Inl e \<Rightarrow> Inl e
         | Inr v \<Rightarrow>
             add_production ps (dict_set hourly_production (p_time prd) (v + p_val prd)))
      else add_production ps (dict_set hourly_production (p_time prd) (p_val prd)))"

text \<open>The merge of the appliance series into the whole-house series
  (\<^verbatim>\<open>aggregate_hourly_consumption\<close>; \<^verbatim>\<open>npv_function\<close> repeats the same nested loop inline).\<close>

fun add_consumers ::
  "Consumer list \<Rightarrow> (datetime, real) dict \<Rightarrow> py_error + (datetime, real) dict" where
  "add_consumers [] hourly_consumption = Inr hourly_consumption"
| "add_consumers (consumer # cs) hourly_consumption =
     (let time_key = c_time consumer;
          hourly_consumption =
            (if \<not> dict_has hourly_consumption time_key
             then dict_set hourly_consumption time_key 0 else hourly_consumption)
      in case dict_item hourly_consumption time_key of
           Inl e \<Rightarrow> Inl e
         | Inr v \<Rightarrow>
             add_consumers cs (dict_set hourly_consumption time_key (v + c_val consumer)))"

fun aggregate_loop ::
  "Consumer list list \<Rightarrow> (datetime, real) dict \<Rightarrow> py_error + (datetime, real) dict" where
  "aggregate_loop [] hourly_consumption = Inr hourly_consumption"
| "aggregate_loop (consumer_list # rest) hourly_consumption =
     (case add_consumers consumer_list hourly_consumption of
        Inl e \<Rightarrow> Inl e
      | Inr hc \<Rightarrow> aggregate_loop rest hc)"

definition aggregate_hourly_consumption ::
  "Consumer list list \<Rightarrow> py_error + (datetime, real) dict" where
  "aggregate_hourly_consumption consumers_data = aggregate_loop consumers_data []"

definition load_consumers_data ::
  "(int \<Rightarrow> datetime) \<Rightarrow> (int \<Rightarrow> (int \<times> int \<times> real) list) \<Rightarrow> Consumer list list" where
  "load_consumers_data utcfromtimestamp rows_of =
     [get_cons_by_constype utcfromtimestamp (rows_of 0) ''water pump'',
      get_cons_by_constype utcfromtimestamp (rows_of 1) ''water heater'',
      get_cons_by_constype utcfromtimestamp (rows_of 2) ''washing machine'',
      get_cons_by_constype utcfromtimestamp (rows_of 4) ''freezer'',
      get_cons_by_constype utcfromtimestamp (rows_of 5) ''fridge freezer'',
      get_cons_by_constype utcfromtimestamp (rows_of 6) ''total site light'',
      get_cons_by_constype utcfromtimestamp (rows_of 7) ''TV'',
      get_cons_by_constype utcfromtimestamp (rows_of 9) ''boiler'']"

text \<open>The generator \<^verbatim>\<open>min(hourly_consumption_extended[time],
  hourly_production_extended.get(time, 0)) for time in hourly_consumption_extended\<close>.\<close>

fun min_prod_loads ::
  "(datetime, real) dict \<Rightarrow> (datetime, real) dict \<Rightarrow> datetime list \<Rightarrow> py_error + real list" where
  "min_prod_loads hp hc [] = Inr []"
| "min_prod_loads hp hc (time # ts) =
     (case dict_item hc time of
        Inl e \<Rightarrow> Inl e
      | Inr c \<Rightarrow>
          (case min_prod_loads hp hc ts of
             Inl e \<Rightarrow> Inl e
           | Inr ms \<Rightarrow> Inr (min c (dict_get hp time 0) # ms)))"

subsection \<open>Floating-point rounding in the constraint checks\<close>

text \<open>
  The outcome of the constraint checks is discontinuous in the self-sufficiency, so their
  model keeps what the idealisation of floats as reals drops elsewhere: a Python float
  operation is the exact operation followed by rounding to a double, and a decimal
  literal denotes the double nearest to it. The rounding is the parameter \<open>rnd\<close>;
  \<open>float_rounding rnd\<close> says what the theorems need of it (it is monotone and leaves 0
  alone), and \<open>rnd v = v\<close> says that \<open>v\<close> is a value a float can hold. \<open>round_double\<close> is
  the rounding of binary64 arithmetic, to the nearest double with ties to the even
  significand (53 bits), for results in the normal range.
\<close>

definition float_rounding :: "(real \<Rightarrow> real) \<Rightarrow> bool" where
  "float_rounding rnd = ((\<forall>x y. x \<le> y \<longrightarrow> rnd x \<le> rnd y) \<and> rnd 0 = 0)"

definition round_half_even :: "real \<Rightarrow> int" where
  "round_half_even x =
     (let n = \<lfloor>x\<rfloor>; f = x - of_int n in
      if f < 1 / 2 then n else if f > 1 / 2 then n + 1 else if even n then n else n + 1)"

definition round_double :: "real \<Rightarrow> real" where
  "round_double x =
     (if x = 0 then 0
      else let e = \<lfloor>log 2 \<bar>x\<bar>\<rfloor>; q = 2 powr of_int (e - 52)
           in q * of_int (round_half_even (x / q)))"

text \<open>
  \<open>constraint_checks\<close> is \<^verbatim>\<open>npv_function\<close> from the line \<^verbatim>\<open># Verify panel number\<close> to its end,
  as a function of the values its variables hold there: \<^verbatim>\<open>max_panels\<close> (here \<open>max_p\<close>),
  \<^verbatim>\<open>min_self_sufficiency\<close> (here \<open>min_ss\<close>), the three truncated counts, \<^verbatim>\<open>npv\<close> and
  \<^verbatim>\<open>self_sufficiency\<close>.
  \<^verbatim>\<open>float('500000')\<close> and the other fixed penalties are exact.
\<close>

definition constraint_checks ::
  "(real \<Rightarrow> real) \<Rightarrow> int \<Rightarrow> real \<Rightarrow> int \<Rightarrow> int \<Rightarrow> int \<Rightarrow> real \<Rightarrow> real \<Rightarrow> real" where
  "constraint_checks rnd max_p min_ss
       num_low_cost num_standard num_high_efficiency npv self_sufficiency =
     (if num_low_cost + num_standard + num_high_efficiency > max_p then 1000000
      else if self_sufficiency < rnd (min_ss - rnd 0.1) then 500000
      else if self_sufficiency < rnd (min_ss - rnd 0.05) then 450000
      else if self_sufficiency < rnd (min_ss - rnd 0.03) then 400000
      else if self_sufficiency < rnd (min_ss - rnd 0.02) then 350000
      else if self_sufficiency < rnd (min_ss - rnd 0.01) then 300000
      else if self_sufficiency < min_ss
        then rnd (250000 + rnd (rnd (min_ss - self_sufficiency) * 1000000))
      else - npv)"

text \<open>
  \<open>npv_and_self_sufficiency\<close> is \<^verbatim>\<open>npv_function\<close> up to and including the line
  \<^verbatim>\<open>self_sufficiency = sum_min_prod_load / sum_total_consumption\<close>, in the idealised
  arithmetic of the components it calls: it yields the ideal values of the local
  variables \<^verbatim>\<open>npv\<close> and \<^verbatim>\<open>self_sufficiency\<close>, or the exception raised on the way (a sum of
  zeros is zero in floats as well, so the exceptions are those of the source).
  \<open>npv_function\<close> is the whole function in that idealised arithmetic, the constraint checks
  taken with the identity as rounding (the \<^verbatim>\<open>print\<close> is left out). Next to a threshold
  its value can differ from the float result; what is proved of the checks is proved on
  \<open>constraint_checks\<close>, for the values the source computed and any rounding.
\<close>

definition npv_and_self_sufficiency ::
  "environment \<Rightarrow> real \<times> real \<times> real \<Rightarrow> py_error + (real \<times> real)" where
  "npv_and_self_sufficiency env x =
     (case x of (x0, x1, x2) \<Rightarrow>
      let num_low_cost = py_int x0;
          num_standard = py_int x1;
          num_high_efficiency = py_int x2;
          CapEX =
            real_of_int num_low_cost * real_of_int (panel_power panel_low_cost)
              * cost_per_watt panel_low_cost +
            real_of_int num_standard * real_of_int (panel_power panel_standard)
              * cost_per_watt panel_standard +
            real_of_int num_high_efficiency * real_of_int (panel_power panel_high_efficiency)
              * cost_per_watt panel_high_efficiency;
          nominal_power_low = panel_power panel_low_cost;
          nominal_power_standard = panel_power panel_standard;
          nominal_power_high = panel_power panel_high_efficiency;
          production_low =
            get_production (local_time env) (weather_rows env)
              (real_of_int nominal_power_low) num_low_cost 0.8;
          production_standard =
            get_production (local_time env) (weather_rows env)
              (real_of_int nominal_power_standard) num_standard 0.8;
          production_high =
            get_production (local_time env) (weather_rows env)
              (real_of_int nominal_power_high) num_high_efficiency 0.8;
          hourly_production = production_dict production_low []
      in case add_production production_standard hourly_production of
           Inl e \<Rightarrow> Inl e
         | Inr hourly_production \<Rightarrow>
       case add_production production_high hourly_production of
           Inl e \<Rightarrow> Inl e
         | Inr hourly_production \<Rightarrow>
       case aggregate_hourly_consumption
              (load_consumers_data (utc_time env) (consumption_rows env)) of
           Inl e \<Rightarrow> Inl e
         | Inr hourly_consumption \<Rightarrow>
       case extend_data_to_years hourly_production hourly_consumption glob_Y of
           Inl e \<Rightarrow> Inl e
         | Inr (hourly_production_extended, hourly_consumption_extended) \<Rightarrow>
       case calculate_monthly_costs hourly_production_extended hourly_consumption_extended
              glob_c_grid glob_c_DAM of
           Inl e \<Rightarrow> Inl e
         | Inr monthly_costs \<Rightarrow>
       case calculate_npv monthly_costs CapEX glob_r glob_Y of
           Inl e \<Rightarrow> Inl e
         | Inr (npv, trace) \<Rightarrow>
       let sum_total_consumption = sum_list (map snd hourly_consumption_extended) in
       case min_prod_loads hourly_production_extended hourly_consumption_extended
              (map fst hourly_consumption_extended) of
           Inl e \<Rightarrow> Inl e
         | Inr ms \<Rightarrow>
       let sum_min_prod_load = sum_list ms in
       if sum_total_consumption = 0 then Inl ZeroDivisionError
       else Inr (npv, sum_min_prod_load / sum_total_consumption))"

definition npv_function :: "environment \<Rightarrow> real \<times> real \<times> real \<Rightarrow> py_error + real" where
  "npv_function env x =
     (case npv_and_self_sufficiency env x of
        Inl e \<Rightarrow> Inl e
      | Inr (npv, self_sufficiency) \<Rightarrow>
          (case x of (x0, x1, x2) \<Rightarrow>
           let num_low_cost = py_int x0;
               num_standard = py_int x1;
               num_high_efficiency = py_int x2
           in Inr (constraint_checks (\<lambda>v. v) (max_panels env) (min_self_sufficiency env)
                     num_low_cost num_standard num_high_efficiency npv self_sufficiency)))"

text \<open>The step table of the specification, for a required self-sufficiency \<open>m\<close> and a
  computed self-sufficiency \<open>ss\<close>: the first of the comparisons \<open>ss < m - c\<close> that holds in
  floating point, for \<open>c = 0.10, 0.05, 0.03, 0.02, 0.01\<close> in this order, selects the fixed
  penalty; if none holds the penalty is the linear one.\<close>

definition step_penalty :: "(real \<Rightarrow> real) \<Rightarrow> real \<Rightarrow> real \<Rightarrow> real" where
  "step_penalty rnd m ss =
     (if ss < rnd (m - rnd 0.10) then 500000
      else if ss < rnd (m - rnd 0.05) then 450000
      else if ss < rnd (m - rnd 0.03) then 400000
      else if ss < rnd (m - rnd 0.02) then 350000
      else if ss < rnd (m - rnd 0.01) then 300000
      else rnd (250000 + rnd (rnd (m - ss) * 1000000)))"

section \<open>Example data\<close>

text \<open>
  A small installation used in the examples: one hour of the reference window, the six
  ten-minute samples of appliance 0 from 20:10 to 21:00 UTC on 5 February 1998 (epochs
  886709400 to 886712400) and the irradiance sample of 21:00. \<open>feb1998_time\<close> is the UTC
  conversion on the days 5 to 28 February 1998 (886636800 is midnight of the 5th), used
  for both conversions (a machine in UTC).
\<close>

definition feb1998_time :: "int \<Rightarrow> datetime" where
  "feb1998_time e =
     \<lparr>year = 1998, month = 2, day = 5 + (e - 886636800) div 86400,
      hour = ((e - 886636800) mod 86400) div 3600,
      minute = ((e - 886636800) mod 3600) div 60,
      second = (e - 886636800) mod 60, microsecond = 0\<rparr>"

definition example_samples :: "real \<Rightarrow> (int \<times> int \<times> real) list" where
  "example_samples v =
     [(0, 886709400, v), (0, 886710000, v), (0, 886710600, v),
      (0, 886711200, v), (0, 886711800, v), (0, 886712400, v)]"

definition example_env :: "real \<Rightarrow> real \<Rightarrow> environment" where
  "example_env v irradiance =
     \<lparr>weather_rows = [(irradiance, 886712400)],
      consumption_rows = (\<lambda>a. if a = 0 then example_samples v else []),
      local_time = feb1998_time, utc_time = feb1998_time,
      min_self_sufficiency = 0.5, max_panels = 10\<rparr>"

section \<open>Auxiliary notions for the proofs\<close>

text \<open>\<open>ensure_key\<close> is the statement pair \<^verbatim>\<open>if k not in d: d[k] = 0.0\<close>; \<open>ym_of\<close> the month
  key of an entry; \<open>month_costs\<close> the record the second loop stores for a month. The
  example series are three hours of 5 February 1998.\<close>

definition ensure_key :: "('k, real) dict \<Rightarrow> 'k \<Rightarrow> ('k, real) dict" where
  "ensure_key d k = (if \<not> dict_has d k then dict_set d k 0 else d)"

definition ym_of :: "datetime \<times> real \<Rightarrow> year_month" where
  "ym_of x = (year (fst x), month (fst x))"

definition month_costs ::
  "(year_month, real) dict \<Rightarrow> (year_month, real) dict \<Rightarrow> (datetime, real) dict \<Rightarrow>
   real \<Rightarrow> real \<Rightarrow> year_month \<Rightarrow> real \<times> real" where
  "month_costs g i hc cg cd ym =
     (month_consumption hc ym / 1000 * cg, dict_get g ym 0 * cg - dict_get i ym 0 * cd)"

definition example_hour :: "int \<Rightarrow> datetime" where
  "example_hour h =
     \<lparr>year = 1998, month = 2, day = 5, hour = h, minute = 0, second = 0, microsecond = 0\<rparr>"

definition example_production :: "(datetime, real) dict" where
  "example_production = [(example_hour 20, 3), (example_hour 21, 4)]"

definition example_consumption :: "(datetime, real) dict" where
  "example_consumption = [(example_hour 20, 1), (example_hour 21, 10), (example_hour 22, 2)]"

text \<open>\<open>npv_trace\<close> is the running trace the recurrence prescribes: for \<open>t = 1, \<dots>, n\<close> the
  key of the \<open>t\<close>-th record with the value of \<^verbatim>\<open>npv\<close> after \<open>t\<close> months. The example cost
  dictionary holds two months, inserted out of order.\<close>

definition npv_trace ::
  "real \<Rightarrow> real \<Rightarrow> (year_month \<times> real \<times> real) list \<Rightarrow> nat \<Rightarrow> (year_month \<times> real) list" where
  "npv_trace CapEX r records n =
     map (\<lambda>t. (fst (records ! (t - 1)), npv_after CapEX r records t)) [1..<Suc n]"

definition example_costs :: "(year_month, real \<times> real) dict" where
  "example_costs = [((1998, 3), (50, 30)), ((1998, 2), (40, 10))]"

text \<open>\<open>shift_year\<close> rewrites the year field of a timestamp, \<open>shift_entry\<close> that of an
  entry's key. \<open>daily_step\<close> is one pass of the body of \<open>daily_loop\<close>. The further example
  series: a timestamp in the last year a datetime can hold, the example production in
  another insertion order, and a consumption series that lacks the hour 21:00.\<close>

definition shift_year :: "int \<Rightarrow> datetime \<Rightarrow> datetime" where
  "shift_year off t = t\<lparr>year := year t + off\<rparr>"

definition shift_entry :: "int \<Rightarrow> datetime \<times> real \<Rightarrow> datetime \<times> real" where
  "shift_entry off x = (shift_year off (fst x), snd x)"

text \<open>A reference series: a dictionary of valid timestamps of one common year.\<close>

definition reference_series :: "(datetime, real) dict \<Rightarrow> int \<Rightarrow> bool" where
  "reference_series series y0 =
     (distinct (map fst series) \<and> \<not> is_leap y0 \<and>
      list_all (\<lambda>(t, v). valid_datetime t \<and> year t = y0) series)"

definition last_year_series :: "(datetime, real) dict" where
  "last_year_series =
     [(\<lparr>year = 9999, month = 1, day = 1, hour = 0, minute = 0, second = 0, microsecond = 0\<rparr>, 1)]"

definition daily_step ::
  "(real list \<Rightarrow> real list \<Rightarrow> real) \<Rightarrow> (cal_date, real list) dict \<Rightarrow>
   (cal_date, real list) dict \<Rightarrow> cal_date \<Rightarrow> (cal_date, real) dict \<Rightarrow> (cal_date, real) dict" where
  "daily_step f gp gc dy daily =
     (if dict_has gc dy then dict_set daily dy (f (dict_get gp dy []) (dict_get gc dy []))
      else daily)"

definition example_production_reordered :: "(datetime, real) dict" where
  "example_production_reordered = [(example_hour 21, 4), (example_hour 20, 3)]"

definition example_short_consumption :: "(datetime, real) dict" where
  "example_short_consumption = [(example_hour 20, 3)]"

section \<open>The sample aggregator\<close>

lemma sum_list_group6:
  assumes "6 * k + 6 \<le> length rows"
  shows "sum_list (map f (take 6 (drop (6 * k) rows))) = (\<Sum>j<6. f (rows ! (6 * k + j)))"
proof -
  let ?g = "take 6 (drop (6 * k) rows)"
  have len: "length ?g = 6" using assms by simp
  have "sum_list (map f ?g) = (\<Sum>j = 0..<length (map f ?g). map f ?g ! j)"
    by (rule sum_list_sum_nth)
  also have "\<dots> = (\<Sum>j = 0..<6. f (?g ! j))"
    using len by simp
  also have "\<dots> = (\<Sum>j = 0..<6. f (rows ! (6 * k + j)))"
    using assms by (intro sum.cong) auto
  finally show ?thesis by (simp add: lessThan_atLeast0)
qed

lemma cons_loop_upt:
  "cons_loop conv rows consumer (map (\<lambda>k. 6 * k) [a..<b]) acc =
     acc @ map (hourly_entry conv rows consumer) [a..<min b (length rows div 6)]"
proof (induction "b - a" arbitrary: a acc)
  case 0
  then show ?case by simp
next
  case (Suc n)
  then have ab: "a < b" and n: "n = b - Suc a" by auto
  have upt: "[a..<b] = a # [Suc a..<b]" using ab by (simp add: upt_rec)
  show ?case
  proof (cases "a < length rows div 6")
    case True
    then have full: "6 * a + 6 \<le> length rows" by auto
    have upt2: "[a..<min b (length rows div 6)] = a # [Suc a..<min b (length rows div 6)]"
      using ab True by (simp add: upt_rec)
    show ?thesis
      using full Suc.hyps(1)[OF n]
      by (simp add: upt upt2 Let_def hourly_entry_def sum_list_group6 del: upt.simps)
  next
    case False
    then have "length rows < 6 * a + 6" by auto
    then show ?thesis using False by (simp add: upt Let_def del: upt.simps)
  qed
qed

text \<open>
  C5. For every list of raw samples, the aggregator returns exactly one entry per
  complete group of six consecutive samples, in order: \<open>length rows div 6\<close> entries, the
  \<open>k\<close>-th carrying the timestamp of the group's sixth sample (row \<open>6k + 5\<close>) and the exact
  sum of the six values of rows \<open>6k \<dots> 6k + 5\<close>. A trailing group of fewer than six
  samples contributes nothing.
\<close>

theorem get_cons_by_constype_hourly:
  "get_cons_by_constype conv rows consumer =
     map (hourly_entry conv rows consumer) [0..<length rows div 6]"
proof -
  have "length rows div 6 \<le> (length rows + 5) div 6" by auto
  then show ?thesis
    by (simp add: get_cons_by_constype_def range_step6_def cons_loop_upt min_def)
qed

section \<open>Dictionaries\<close>

lemma map_of_dict_set: "map_of (dict_set d k v) = (map_of d)(k \<mapsto> v)"
  by (simp add: dict_set_def update_conv')

lemma keys_dict_set: "fst ` set (dict_set d k v) = insert k (fst ` set d)"
  by (simp add: dict_set_def dom_update)

lemma distinct_dict_set: "distinct (map fst d) \<Longrightarrow> distinct (map fst (dict_set d k v))"
  by (simp add: dict_set_def distinct_update)

lemma dict_has_iff: "dict_has d k \<longleftrightarrow> k \<in> fst ` set d"
proof (cases "map_of d k")
  case None
  then show ?thesis by (simp add: dict_has_def map_of_eq_None_iff[symmetric])
next
  case (Some v)
  then have "k \<in> fst ` set d" by (metis map_of_eq_None_iff option.distinct(1))
  with Some show ?thesis by (simp add: dict_has_def)
qed

lemma dict_get_dict_set: "dict_get (dict_set d k v) k' dflt = (if k' = k then v else dict_get d k' dflt)"
  by (simp add: dict_get_def map_of_dict_set)

lemma dict_get_absent: "k \<notin> fst ` set d \<Longrightarrow> dict_get d k dflt = dflt"
  by (simp add: dict_get_def map_of_eq_None_iff[symmetric])

lemma map_of_dict_get: "k \<in> fst ` set d \<Longrightarrow> map_of d k = Some (dict_get d k dflt)"
  by (cases "map_of d k") (simp_all add: dict_get_def map_of_eq_None_iff)

lemma dict_item_get: "k \<in> fst ` set d \<Longrightarrow> dict_item d k = Inr (dict_get d k dflt)"
  by (simp add: dict_item_def map_of_dict_get[where dflt = dflt])

lemma keys_ensure_key: "fst ` set (ensure_key d k) = insert k (fst ` set d)"
  by (auto simp: ensure_key_def keys_dict_set dict_has_iff)

lemma distinct_ensure_key: "distinct (map fst d) \<Longrightarrow> distinct (map fst (ensure_key d k))"
  by (simp add: ensure_key_def distinct_dict_set)

lemma dict_get_ensure_key: "dict_get (ensure_key d k) k' 0 = dict_get d k' 0"
  by (simp add: ensure_key_def dict_get_dict_set dict_has_iff dict_get_absent)

lemma dict_item_ensure_key: "dict_item (ensure_key d k) k = Inr (dict_get d k 0)"
  using dict_item_get[of k "ensure_key d k" 0]
  by (simp add: keys_ensure_key dict_get_ensure_key)

lemma energy_loop_step:
  "energy_loop hp ((t, c) # items) (g, i) =
     (if c > dict_get hp t 0 then
        energy_loop hp items
          (dict_set (ensure_key g (year t, month t)) (year t, month t)
             (dict_get g (year t, month t) 0 + (c - dict_get hp t 0) / 1000),
           ensure_key i (year t, month t))
      else
        energy_loop hp items
          (ensure_key g (year t, month t),
           dict_set (ensure_key i (year t, month t)) (year t, month t)
             (dict_get i (year t, month t) 0 + (dict_get hp t 0 - c) / 1000)))"
  using dict_item_ensure_key[of g "(year t, month t)"] dict_item_ensure_key[of i "(year t, month t)"]
  by (simp add: Let_def ensure_key_def)

section \<open>The energy balance\<close>

lemma month_items_Cons:
  "month_items (x # xs) ym = (if ym_of x = ym then x # month_items xs ym else month_items xs ym)"
  by (cases x) (simp add: month_items_def ym_of_def)

lemma grid_energy_Cons:
  "grid_energy_kwh hp ((t, c) # xs) ym =
     (if (year t, month t) = ym \<and> c > dict_get hp t 0 then (c - dict_get hp t 0) / 1000 else 0)
       + grid_energy_kwh hp xs ym"
  by (simp add: grid_energy_kwh_def month_items_Cons ym_of_def)

lemma injected_energy_Cons:
  "injected_energy_kwh hp ((t, c) # xs) ym =
     (if (year t, month t) = ym \<and> \<not> c > dict_get hp t 0 then (dict_get hp t 0 - c) / 1000 else 0)
       + injected_energy_kwh hp xs ym"
  by (simp add: injected_energy_kwh_def month_items_Cons ym_of_def)

lemma energy_loop_char:
  assumes "fst ` set g = fst ` set i"
  shows "\<exists>g' i'. energy_loop hp items (g, i) = Inr (g', i')
      \<and> fst ` set g' = fst ` set g \<union> ym_of ` set items
      \<and> fst ` set i' = fst ` set g'
      \<and> (distinct (map fst g) \<longrightarrow> distinct (map fst g'))
      \<and> (distinct (map fst i) \<longrightarrow> distinct (map fst i'))
      \<and> (\<forall>k. dict_get g' k 0 = dict_get g k 0 + grid_energy_kwh hp items k)
      \<and> (\<forall>k. dict_get i' k 0 = dict_get i k 0 + injected_energy_kwh hp items k)"
  using assms
proof (induction items arbitrary: g i)
  case Nil
  then show ?case
    by (simp add: grid_energy_kwh_def injected_energy_kwh_def month_items_def)
next
  case (Cons x items)
  obtain t c where x: "x = (t, c)" by (cases x)
  define k0 where "k0 = (year t, month t)"
  define p where "p = dict_get hp t 0"
  define g2 where "g2 = (if c > p then dict_set (ensure_key g k0) k0 (dict_get g k0 0 + (c - p) / 1000)
                         else ensure_key g k0)"
  define i2 where "i2 = (if c > p then ensure_key i k0
                         else dict_set (ensure_key i k0) k0 (dict_get i k0 0 + (p - c) / 1000))"
  have step: "energy_loop hp (x # items) (g, i) = energy_loop hp items (g2, i2)"
    by (simp add: x energy_loop_step g2_def i2_def k0_def p_def del: energy_loop.simps)
  have kg2: "fst ` set g2 = insert k0 (fst ` set g)"
    by (simp add: g2_def keys_dict_set keys_ensure_key)
  have ki2: "fst ` set i2 = insert k0 (fst ` set i)"
    by (simp add: i2_def keys_dict_set keys_ensure_key)
  have dg2: "distinct (map fst g) \<Longrightarrow> distinct (map fst g2)"
    by (simp add: g2_def distinct_dict_set distinct_ensure_key)
  have di2: "distinct (map fst i) \<Longrightarrow> distinct (map fst i2)"
    by (simp add: i2_def distinct_dict_set distinct_ensure_key)
  have vg2: "dict_get g2 k 0 + grid_energy_kwh hp items k =
             dict_get g k 0 + grid_energy_kwh hp (x # items) k" for k
    by (simp add: x grid_energy_Cons g2_def dict_get_dict_set dict_get_ensure_key k0_def p_def)
  have vi2: "dict_get i2 k 0 + injected_energy_kwh hp items k =
             dict_get i k 0 + injected_energy_kwh hp (x # items) k" for k
    by (simp add: x injected_energy_Cons i2_def dict_get_dict_set dict_get_ensure_key k0_def p_def)
  have keys: "fst ` set g2 = fst ` set i2"
    using Cons.prems by (simp add: kg2 ki2)
  from Cons.IH[OF keys] obtain g' i' where ih:
    "energy_loop hp items (g2, i2) = Inr (g', i')
      \<and> fst ` set g' = fst ` set g2 \<union> ym_of ` set items
      \<and> fst ` set i' = fst ` set g'
      \<and> (distinct (map fst g2) \<longrightarrow> distinct (map fst g'))
      \<and> (distinct (map fst i2) \<longrightarrow> distinct (map fst i'))
      \<and> (\<forall>k. dict_get g' k 0 = dict_get g2 k 0 + grid_energy_kwh hp items k)
      \<and> (\<forall>k. dict_get i' k 0 = dict_get i2 k 0 + injected_energy_kwh hp items k)"
    by (elim exE) (rule that)
  have r: "energy_loop hp items (g2, i2) = Inr (g', i')"
    and k1: "fst ` set g' = fst ` set g2 \<union> ym_of ` set items"
    and k2: "fst ` set i' = fst ` set g'"
    and d1: "distinct (map fst g2) \<longrightarrow> distinct (map fst g')"
    and d2: "distinct (map fst i2) \<longrightarrow> distinct (map fst i')"
    and v1: "\<forall>k. dict_get g' k 0 = dict_get g2 k 0 + grid_energy_kwh hp items k"
    and v2: "\<forall>k. dict_get i' k 0 = dict_get i2 k 0 + injected_energy_kwh hp items k"
    using ih by simp_all
  have a: "fst ` set g' = fst ` set g \<union> ym_of ` set (x # items)"
    using k1 by (auto simp: kg2 x ym_of_def k0_def)
  have b: "distinct (map fst g) \<longrightarrow> distinct (map fst g')"
    using d1 dg2 by simp
  have c: "distinct (map fst i) \<longrightarrow> distinct (map fst i')"
    using d2 di2 by simp
  have d: "\<forall>k. dict_get g' k 0 = dict_get g k 0 + grid_energy_kwh hp (x # items) k"
    using v1 vg2 by simp
  have e: "\<forall>k. dict_get i' k 0 = dict_get i k 0 + injected_energy_kwh hp (x # items) k"
    using v2 vi2 by simp
  show ?case
    unfolding step r
    apply (rule exI[of _ g'], rule exI[of _ i'])
    using a k2 b c d e by simp
qed

lemma grid_energy_nonneg: "0 \<le> grid_energy_kwh hp hc ym"
  unfolding grid_energy_kwh_def by (rule sum_list_nonneg) auto

lemma injected_energy_nonneg: "0 \<le> injected_energy_kwh hp hc ym"
  unfolding injected_energy_kwh_def by (rule sum_list_nonneg) auto

lemma dict_get_Nil: "dict_get [] k dflt = dflt"
  by (simp add: dict_get_def)

lemma energy_loop_empty:
  "\<exists>g i. energy_loop hp hc ([], []) = Inr (g, i)
      \<and> distinct (map fst g) \<and> distinct (map fst i)
      \<and> fst ` set g = ym_of ` set hc \<and> fst ` set i = ym_of ` set hc
      \<and> (\<forall>k. k \<in> ym_of ` set hc \<longrightarrow> map_of g k = Some (grid_energy_kwh hp hc k))
      \<and> (\<forall>k. k \<in> ym_of ` set hc \<longrightarrow> map_of i k = Some (injected_energy_kwh hp hc k))"
proof -
  let ?e = "[] :: (year_month, real) dict"
  have "fst ` set ?e = fst ` set ?e" by simp
  from energy_loop_char[OF this, of hp hc] obtain g i where ih:
    "energy_loop hp hc (?e, ?e) = Inr (g, i)
      \<and> fst ` set g = fst ` set ?e \<union> ym_of ` set hc
      \<and> fst ` set i = fst ` set g
      \<and> (distinct (map fst ?e) \<longrightarrow> distinct (map fst g))
      \<and> (distinct (map fst ?e) \<longrightarrow> distinct (map fst i))
      \<and> (\<forall>k. dict_get g k 0 = dict_get ?e k 0 + grid_energy_kwh hp hc k)
      \<and> (\<forall>k. dict_get i k 0 = dict_get ?e k 0 + injected_energy_kwh hp hc k)"
    by (elim exE) (rule that)
  have r: "energy_loop hp hc ([], []) = Inr (g, i)" using ih by simp
  have k1: "fst ` set g = ym_of ` set hc" using ih by simp
  have k2: "fst ` set i = ym_of ` set hc" using ih by simp
  have d1: "distinct (map fst g)" using ih by simp
  have d2: "distinct (map fst i)" using ih by simp
  have v1: "dict_get g k 0 = grid_energy_kwh hp hc k" for k using ih by (cases k) (simp add: dict_get_Nil)
  have v2: "dict_get i k 0 = injected_energy_kwh hp hc k" for k using ih by (cases k) (simp add: dict_get_Nil)
  have m1: "map_of g k = Some (grid_energy_kwh hp hc k)" if "k \<in> ym_of ` set hc" for k
    using map_of_dict_get[of k g 0] that k1 v1 by simp
  have m2: "map_of i k = Some (injected_energy_kwh hp hc k)" if "k \<in> ym_of ` set hc" for k
    using map_of_dict_get[of k i 0] that k2 v2 by simp
  show ?thesis
    apply (rule exI[of _ g], rule exI[of _ i])
    using r k1 k2 d1 d2 m1 m2 by simp
qed

text \<open>
  C10. For every production and consumption series, with no sign condition on the
  values, the first loop of the monthly cost calculator ends without an exception and
  every accumulated grid-energy bucket and every injected-energy bucket is non-negative:
  each update adds a positive deficit or a non-negative surplus.
\<close>

theorem energy_buckets_nonneg:
  "\<exists>g i. energy_loop hp hc ([], []) = Inr (g, i)
     \<and> (\<forall>(ym, e) \<in> set g. 0 \<le> e) \<and> (\<forall>(ym, e) \<in> set i. 0 \<le> e)"
proof -
  from energy_loop_empty[of hp hc] obtain g i where ih:
    "energy_loop hp hc ([], []) = Inr (g, i)
      \<and> distinct (map fst g) \<and> distinct (map fst i)
      \<and> fst ` set g = ym_of ` set hc \<and> fst ` set i = ym_of ` set hc
      \<and> (\<forall>k. k \<in> ym_of ` set hc \<longrightarrow> map_of g k = Some (grid_energy_kwh hp hc k))
      \<and> (\<forall>k. k \<in> ym_of ` set hc \<longrightarrow> map_of i k = Some (injected_energy_kwh hp hc k))"
    by (elim exE) (rule that)
  have r: "energy_loop hp hc ([], []) = Inr (g, i)" using ih by simp
  have d1: "distinct (map fst g)" and d2: "distinct (map fst i)" using ih by simp_all
  have k1: "fst ` set g = ym_of ` set hc" and k2: "fst ` set i = ym_of ` set hc"
    using ih by simp_all
  have v1: "map_of g k = Some (grid_energy_kwh hp hc k)" if "k \<in> ym_of ` set hc" for k
    using ih that by (cases k) simp
  have v2: "map_of i k = Some (injected_energy_kwh hp hc k)" if "k \<in> ym_of ` set hc" for k
    using ih that by (cases k) simp
  have a: "0 \<le> e" if "(ym, e) \<in> set g" for ym e
  proof -
    have "map_of g ym = Some e" using that d1 by simp
    moreover have "ym \<in> ym_of ` set hc" using that k1 by force
    ultimately have "e = grid_energy_kwh hp hc ym" using v1 by simp
    then show ?thesis using grid_energy_nonneg[of hp hc ym] by simp
  qed
  have b: "0 \<le> e" if "(ym, e) \<in> set i" for ym e
  proof -
    have "map_of i ym = Some e" using that d2 by simp
    moreover have "ym \<in> ym_of ` set hc" using that k2 by force
    ultimately have "e = injected_energy_kwh hp hc ym" using v2 by simp
    then show ?thesis using injected_energy_nonneg[of hp hc ym] by simp
  qed
  show ?thesis
    apply (rule exI[of _ g], rule exI[of _ i])
    using r a b by auto
qed

lemma dict_item_member:
  "distinct (map fst d) \<Longrightarrow> (k, v) \<in> set d \<Longrightarrow> dict_item d k = Inr v"
  by (simp add: dict_item_def)

lemma dict_items_of_sub:
  "distinct (map fst d) \<Longrightarrow> set xs \<subseteq> set d \<Longrightarrow> dict_items_of d (map fst xs) = Inr (map snd xs)"
proof (induction xs)
  case Nil
  then show ?case by simp
next
  case (Cons x xs)
  then have "(fst x, snd x) \<in> set d" by simp
  with Cons.prems(1) have "dict_item d (fst x) = Inr (snd x)" by (rule dict_item_member)
  with Cons show ?case by simp
qed

lemma month_consumption_lookup:
  assumes "distinct (map fst hc)"
  shows "dict_items_of hc (filter (\<lambda>time. (year time, month time) = ym) (map fst hc))
           = Inr (map snd (month_items hc ym))"
proof -
  have "filter (\<lambda>time. (year time, month time) = ym) (map fst hc) = map fst (month_items hc ym)"
    by (simp add: month_items_def filter_map comp_def case_prod_unfold)
  moreover have "set (month_items hc ym) \<subseteq> set hc"
    by (simp add: month_items_def)
  ultimately show ?thesis using dict_items_of_sub[OF assms] by simp
qed

lemma cost_loop_fold:
  assumes "distinct (map fst hc)" "set ks \<subseteq> fst ` set g" "set ks \<subseteq> fst ` set i"
  shows "cost_loop hc cg cd g i ks mc =
           Inr (fold (\<lambda>k m. dict_set m k (month_costs g i hc cg cd k)) ks mc)"
  using assms(2,3)
proof (induction ks arbitrary: mc)
  case Nil
  then show ?case by simp
next
  case (Cons k ks)
  have a: "dict_item g k = Inr (dict_get g k 0)" using Cons.prems by (simp add: dict_item_get)
  have b: "dict_item i k = Inr (dict_get i k 0)" using Cons.prems by (simp add: dict_item_get)
  show ?case
    using Cons.IH Cons.prems
    by (simp add: month_consumption_lookup[OF assms(1)] a b Let_def month_costs_def
        month_consumption_def)
qed

lemma dict_set_fresh: "k \<notin> fst ` set m \<Longrightarrow> dict_set m k v = m @ [(k, v)]"
  unfolding dict_set_def by (induction m) auto

lemma fold_dict_set_fresh:
  "distinct ks \<Longrightarrow> set ks \<inter> fst ` set m = {} \<Longrightarrow>
   fold (\<lambda>k m. dict_set m k (f k)) ks m = m @ map (\<lambda>k. (k, f k)) ks"
proof (induction ks arbitrary: m)
  case Nil
  then show ?case by simp
next
  case (Cons k ks)
  have fresh: "k \<notin> fst ` set m" using Cons.prems by auto
  have "set ks \<inter> fst ` set (m @ [(k, f k)]) = {}" using Cons.prems by auto
  with Cons show ?case by (simp add: dict_set_fresh[OF fresh])
qed

text \<open>
  C4. For consumption and production series (the consumption series a dictionary, so
  with distinct timestamps) the monthly cost calculator returns exactly one record per
  (year, month) key of the consumption series. The record's \<open>costWithoutPV\<close> is the
  month's consumption sum divided by 1000 times \<open>c_grid\<close>; its \<open>costWithPV\<close> is the grid
  bucket times \<open>c_grid\<close> minus the injected bucket times \<open>c_DAM\<close>, where the grid bucket
  sums \<open>(consumption - production) / 1000\<close> over the month's hours with consumption above
  production, the injected bucket sums \<open>(production - consumption) / 1000\<close> over the
  others, and a timestamp absent from the production series counts as production 0.
\<close>

theorem calculate_monthly_costs_records:
  assumes "distinct (map fst hc)"
  shows "\<exists>ks. distinct ks \<and> set ks = (\<lambda>t. (year t, month t)) ` fst ` set hc \<and>
           calculate_monthly_costs hp hc cg cd =
             Inr (map (\<lambda>ym. (ym, month_consumption hc ym / 1000 * cg,
                               grid_energy_kwh hp hc ym * cg - injected_energy_kwh hp hc ym * cd))
                      ks)"
proof -
  from energy_loop_empty[of hp hc] obtain g i where ih:
    "energy_loop hp hc ([], []) = Inr (g, i)
      \<and> distinct (map fst g) \<and> distinct (map fst i)
      \<and> fst ` set g = ym_of ` set hc \<and> fst ` set i = ym_of ` set hc
      \<and> (\<forall>k. k \<in> ym_of ` set hc \<longrightarrow> map_of g k = Some (grid_energy_kwh hp hc k))
      \<and> (\<forall>k. k \<in> ym_of ` set hc \<longrightarrow> map_of i k = Some (injected_energy_kwh hp hc k))"
    by (elim exE) (rule that)
  have r: "energy_loop hp hc ([], []) = Inr (g, i)" using ih by simp
  have d1: "distinct (map fst g)" using ih by simp
  have k1: "fst ` set g = ym_of ` set hc" and k2: "fst ` set i = ym_of ` set hc"
    using ih by simp_all
  have v1: "map_of g k = Some (grid_energy_kwh hp hc k)" if "k \<in> ym_of ` set hc" for k
    using ih that by (cases k) simp
  have v2: "map_of i k = Some (injected_energy_kwh hp hc k)" if "k \<in> ym_of ` set hc" for k
    using ih that by (cases k) simp
  let ?ks = "map fst g"
  have sub1: "set ?ks \<subseteq> fst ` set g" by simp
  have sub2: "set ?ks \<subseteq> fst ` set i" using k1 k2 by simp
  have "calculate_monthly_costs hp hc cg cd =
          Inr (fold (\<lambda>k m. dict_set m k (month_costs g i hc cg cd k)) ?ks [])"
    by (simp add: calculate_monthly_costs_def r cost_loop_fold[OF assms sub1 sub2])
  also have "fold (\<lambda>k m. dict_set m k (month_costs g i hc cg cd k)) ?ks []
               = map (\<lambda>k. (k, month_costs g i hc cg cd k)) ?ks"
    using fold_dict_set_fresh[of ?ks "[]" "month_costs g i hc cg cd"] d1 by simp
  also have "\<dots> = map (\<lambda>ym. (ym, month_consumption hc ym / 1000 * cg,
                               grid_energy_kwh hp hc ym * cg - injected_energy_kwh hp hc ym * cd)) ?ks"
  proof (rule map_cong[OF refl])
    fix k assume "k \<in> set ?ks"
    then have kin: "k \<in> ym_of ` set hc" using k1 by simp
    have "dict_get g k 0 = grid_energy_kwh hp hc k"
      using v1[OF kin] by (simp add: dict_get_def)
    moreover have "dict_get i k 0 = injected_energy_kwh hp hc k"
      using v2[OF kin] by (simp add: dict_get_def)
    ultimately show "(k, month_costs g i hc cg cd k) =
        (k, month_consumption hc k / 1000 * cg,
            grid_energy_kwh hp hc k * cg - injected_energy_kwh hp hc k * cd)"
      by (simp add: month_costs_def)
  qed
  finally have res: "calculate_monthly_costs hp hc cg cd =
      Inr (map (\<lambda>ym. (ym, month_consumption hc ym / 1000 * cg,
                       grid_energy_kwh hp hc ym * cg - injected_energy_kwh hp hc ym * cd)) ?ks)" .
  have keys: "set ?ks = (\<lambda>t. (year t, month t)) ` fst ` set hc"
    using k1 by (simp add: ym_of_def[abs_def] image_image)
  show ?thesis
    apply (rule exI[of _ ?ks])
    using d1 keys res by simp
qed

theorem calculate_monthly_costs_records_witness:
  "distinct (map fst example_consumption) \<and>
   calculate_monthly_costs example_production example_consumption (1/4) (1/10) =
     Inr [((1998, 2), 13 / 4000, 9 / 5000)]"
proof -
  have d: "distinct (map fst example_consumption)"
    by (simp add: example_consumption_def example_hour_def)
  show ?thesis
    using d calculate_monthly_costs_records[OF d, of example_production "1/4" "1/10"]
    by (simp add: calculate_monthly_costs_def example_consumption_def example_production_def
        example_hour_def Let_def dict_get_def dict_set_def dict_has_def dict_item_def)
qed

theorem energy_buckets_nonneg_witness:
  "energy_loop example_production example_consumption ([], []) =
     Inr ([((1998, 2), 1 / 125)], [((1998, 2), 1 / 500)]) \<and> (0::real) \<le> 1 / 125 \<and> (0::real) \<le> 1 / 500"
  using energy_buckets_nonneg[of example_production example_consumption]
  by (simp add: example_consumption_def example_production_def
        example_hour_def Let_def dict_get_def dict_set_def dict_has_def dict_item_def)

section \<open>The financial evaluator\<close>

lemma map_insort_key: "map f (insort_key f x ys) = insort (f x) (map f ys)"
  by (induction ys) simp_all

lemma sort_map_fst: "sort (map f xs) = map f (sort_key f xs)"
  by (induction xs) (simp_all add: map_insort_key)

lemma py_pow_pos: "0 < b \<Longrightarrow> py_pow b e = Inr (b powr e)"
  by (simp add: py_pow_def)

lemma npv_after_Suc:
  "npv_after CapEX r records (Suc m) = npv_after CapEX r records m + npv_term CapEX r records (Suc m)"
  by (simp add: npv_after_def)

lemma npv_trace_Suc:
  "npv_trace CapEX r records (Suc m) =
     npv_trace CapEX r records m @ [(fst (records ! m), npv_after CapEX r records (Suc m))]"
  by (simp add: npv_trace_def)

lemma npv_loop_step:
  "dict_item mc k = Inr (cwo, cw) \<Longrightarrow> py_pow (1 + r) ((real t - 1) / 12) = Inr dsc \<Longrightarrow>
   dsc \<noteq> 0 \<Longrightarrow>
   npv_loop mc OpEX r t (k # ks) (npv, tr) =
     npv_loop mc OpEX r (Suc t) ks
       (npv + (cwo - cw - OpEX / 12) / dsc, tr @ [(k, npv + (cwo - cw - OpEX / 12) / dsc)])"
  by (simp add: Let_def)

lemma npv_loop_suffix:
  assumes r: "- 1 < r" and d: "distinct (map fst mc)" and sub: "set recs \<subseteq> set mc"
  shows "m \<le> length recs \<Longrightarrow>
     npv_loop mc (0.03 * CapEX) r (Suc m) (map fst (drop m recs))
        (npv_after CapEX r recs m, npv_trace CapEX r recs m)
       = Inr (npv_after CapEX r recs (length recs), npv_trace CapEX r recs (length recs))"
proof (induction "length recs - m" arbitrary: m)
  case 0
  then show ?case by simp
next
  case (Suc n)
  then have m: "m < length recs" and n: "n = length recs - Suc m" by auto
  obtain k cwo cw where rm: "recs ! m = (k, cwo, cw)" by (cases "recs ! m") auto
  have "(k, cwo, cw) \<in> set mc" using sub m rm nth_mem[of m recs] by auto
  then have item: "dict_item mc k = Inr (cwo, cw)" using d by (rule dict_item_member[rotated])
  have pos: "0 < 1 + r" using r by simp
  have pw: "py_pow (1 + r) ((real (Suc m) - 1) / 12) = Inr ((1 + r) powr ((real (Suc m) - 1) / 12))"
    using pos by (rule py_pow_pos)
  have nz: "(1 + r) powr ((real (Suc m) - 1) / 12) \<noteq> 0" using pos by simp
  have tm: "(cwo - cw - 0.03 * CapEX / 12) / (1 + r) powr ((real (Suc m) - 1) / 12)
                = npv_term CapEX r recs (Suc m)"
    by (simp add: npv_term_def rm)
  have dr: "drop m recs = (k, cwo, cw) # drop (Suc m) recs"
    using m rm by (simp add: Cons_nth_drop_Suc[symmetric])
  have "npv_loop mc (0.03 * CapEX) r (Suc m) (map fst (drop m recs))
          (npv_after CapEX r recs m, npv_trace CapEX r recs m)
        = npv_loop mc (0.03 * CapEX) r (Suc (Suc m)) (map fst (drop (Suc m) recs))
          (npv_after CapEX r recs (Suc m), npv_trace CapEX r recs (Suc m))"
    unfolding dr list.map fst_conv
    by (simp only: npv_loop_step[OF item pw nz] tm npv_after_Suc npv_trace_Suc rm fst_conv)
  also have "\<dots> = Inr (npv_after CapEX r recs (length recs), npv_trace CapEX r recs (length recs))"
    using Suc.hyps(1)[OF n] m by simp
  finally show ?case .
qed

text \<open>
  C3. For a monthly cost dictionary and a discount rate \<open>r > -1\<close>, \<^verbatim>\<open>calculate_npv\<close> returns
  the pair of the final NPV and the per-month trace given by the recurrence over the
  records in ascending (year, month) order: operating expenditure \<open>0.03 * CapEX\<close>, start
  value \<open>- CapEX\<close>, and for month index \<open>t = 1, 2, \<dots>\<close> the increment
  \<open>(costWithoutPV - costWithPV - 0.03 * CapEX / 12) / (1 + r) powr ((t - 1) / 12)\<close>. The
  first month's term is undiscounted.
\<close>

theorem calculate_npv_recurrence:
  assumes "distinct (map fst monthly_costs)" and "- 1 < r"
  shows "calculate_npv monthly_costs CapEX r Y =
           Inr (npv_after CapEX r (sort_key fst monthly_costs) (length monthly_costs),
                npv_trace CapEX r (sort_key fst monthly_costs) (length monthly_costs))
         \<and> npv_term CapEX r (sort_key fst monthly_costs) 1 =
             fst (snd (sort_key fst monthly_costs ! 0)) - snd (snd (sort_key fst monthly_costs ! 0))
               - 0.03 * CapEX / 12"
proof -
  let ?recs = "sort_key fst monthly_costs"
  have sub: "set ?recs \<subseteq> set monthly_costs" by simp
  have "npv_loop monthly_costs (0.03 * CapEX) r (Suc 0) (map fst (drop 0 ?recs))
          (npv_after CapEX r ?recs 0, npv_trace CapEX r ?recs 0)
        = Inr (npv_after CapEX r ?recs (length ?recs), npv_trace CapEX r ?recs (length ?recs))"
    by (rule npv_loop_suffix[OF assms(2) assms(1) sub]) simp
  then have "calculate_npv monthly_costs CapEX r Y =
           Inr (npv_after CapEX r ?recs (length monthly_costs),
                npv_trace CapEX r ?recs (length monthly_costs))"
    by (simp add: calculate_npv_def Let_def sort_map_fst npv_after_def npv_trace_def)
  moreover have "(1 + r) powr 0 = 1" using assms(2) by simp
  then have "npv_term CapEX r ?recs 1 =
             fst (snd (?recs ! 0)) - snd (snd (?recs ! 0)) - 0.03 * CapEX / 12"
    by (simp add: npv_term_def)
  ultimately show ?thesis by simp
qed

theorem calculate_npv_recurrence_witness:
  "distinct (map fst example_costs) \<and> (- 1 :: real) < 1 / 20 \<and>
   calculate_npv example_costs 1200 (1 / 20) 5 =
     Inr (17 / (21 / 20) powr (1 / 12) - 1173,
          [((1998, 2), - 1173), ((1998, 3), 17 / (21 / 20) powr (1 / 12) - 1173)])"
proof -
  have d: "distinct (map fst example_costs)" by (simp add: example_costs_def)
  have r: "(- 1 :: real) < 1 / 20" by simp
  show ?thesis
    using d calculate_npv_recurrence[OF d r, of 1200 5]
    by (simp add: calculate_npv_def example_costs_def Let_def dict_item_def py_pow_def)
qed

lemma npv_loop_cong:
  "map_of a = map_of b \<Longrightarrow> npv_loop a OpEX r t ks st = npv_loop b OpEX r t ks st"
proof (induction ks arbitrary: t st)
  case Nil
  then show ?case by (cases st) simp
next
  case (Cons k ks)
  obtain npv tr where st: "st = (npv, tr)" by (cases st)
  have "dict_item a k = dict_item b k" using Cons.prems by (simp add: dict_item_def)
  then show ?case
    using Cons.IH[OF Cons.prems]
    by (simp add: st Let_def split: sum.splits prod.splits)
qed

lemma sorted_keys_eq:
  assumes "distinct (map fst a)" "distinct (map fst b)" "map_of a = map_of b"
  shows "sort (map fst a) = sort (map fst b)"
proof (rule sorted_distinct_set_unique)
  have "dom (map_of a) = dom (map_of b)" using assms(3) by simp
  then show "set (sort (map fst a)) = set (sort (map fst b))"
    by (simp add: dom_map_of_conv_image_fst)
qed (use assms in simp_all)

text \<open>The result does not depend on the insertion order of the dictionary: the keys
  are sorted before the loop.\<close>

lemma calculate_npv_insertion_order:
  assumes "distinct (map fst a)" "distinct (map fst b)" "map_of a = map_of b"
  shows "calculate_npv a CapEX r Y = calculate_npv b CapEX r Y"
  using sorted_keys_eq[OF assms] npv_loop_cong[OF assms(3)]
  by (simp add: calculate_npv_def Let_def)

section \<open>The horizon extender\<close>

lemma shifted_series_alt:
  "shifted_series series years = concat (map (\<lambda>off. map (shift_entry off) series) (py_range years))"
  by (simp add: shifted_series_def shift_entry_def[abs_def] shift_year_def case_prod_unfold)

lemma days_in_month_common: "\<not> is_leap y0 \<Longrightarrow> days_in_month y0 m \<le> days_in_month y m"
  by (simp add: days_in_month_def)

lemma replace_year_common:
  assumes "valid_datetime t" "\<not> is_leap (year t)" "1 \<le> y" "y \<le> 9999"
  shows "replace_year t y = Inr (t\<lparr>year := y\<rparr>)"
proof -
  have "day t \<le> days_in_month (year t) (month t)"
    using assms(1) by (simp add: valid_datetime_def valid_date_def)
  also have "\<dots> \<le> days_in_month y (month t)"
    using assms(2) by (rule days_in_month_common)
  finally have "valid_date y (month t) (day t)"
    using assms by (simp add: valid_datetime_def valid_date_def)
  then show ?thesis by (simp add: replace_year_def)
qed

lemma extend_items_fresh:
  assumes "\<And>t v. (t, v) \<in> set items \<Longrightarrow> replace_year t (year t + off) = Inr (shift_year off t)"
    and "distinct (map (shift_year off) (map fst items))"
    and "shift_year off ` fst ` set items \<inter> fst ` set ext = {}"
  shows "extend_items off items ext = Inr (ext @ map (shift_entry off) items)"
  using assms
proof (induction items arbitrary: ext)
  case Nil
  then show ?case by simp
next
  case (Cons x items)
  obtain t v where x: "x = (t, v)" by (cases x)
  have rp: "replace_year t (year t + off) = Inr (shift_year off t)"
    using Cons.prems(1)[of t v] by (simp add: x)
  have fresh: "shift_year off t \<notin> fst ` set ext"
    using Cons.prems(3) by (auto simp: x)
  have set1: "dict_set ext (shift_year off t) v = ext @ [(shift_year off t, v)]"
    using fresh by (rule dict_set_fresh)
  have p1: "replace_year t (year t + off) = Inr (shift_year off t)" if "(t, v) \<in> set items" for t v
    using Cons.prems(1)[of t v] that by simp
  have p2: "distinct (map (shift_year off) (map fst items))"
    using Cons.prems(2) by simp
  have p3: "shift_year off ` fst ` set items \<inter> fst ` set (ext @ [(shift_year off t, v)]) = {}"
    using Cons.prems(2,3) by (auto simp: x)
  show ?case
    using Cons.IH[OF p1 p2 p3]
    by (simp add: x rp set1 shift_entry_def)
qed

lemma shift_year_inj:
  "year t = year t' \<Longrightarrow> shift_year off t = shift_year off t' \<Longrightarrow> t = t'"
  by (cases t, cases t') (simp add: shift_year_def)

lemma distinct_shift_year:
  assumes "distinct (map fst items)" "\<And>t v. (t, v) \<in> set items \<Longrightarrow> year t = y0"
  shows "distinct (map (shift_year off) (map fst items))"
proof -
  have inj: "inj_on (shift_year off) (set (map fst items))"
  proof (rule inj_onI)
    fix a b assume a: "a \<in> set (map fst items)" and b: "b \<in> set (map fst items)"
      and eq: "shift_year off a = shift_year off b"
    have "year a = y0" using a assms(2) by auto
    moreover have "year b = y0" using b assms(2) by auto
    ultimately show "a = b" using eq shift_year_inj[of a b off] by simp
  qed
  show ?thesis
    unfolding distinct_map[of "shift_year off"] using assms(1) inj by (rule conjI)
qed

lemma extend_items_reference:
  assumes ref: "reference_series series y0" and lo: "1 \<le> y0 + off" and hi: "y0 + off \<le> 9999"
    and fresh: "\<forall>k \<in> fst ` set ext. year k \<noteq> y0 + off"
  shows "extend_items off series ext = Inr (ext @ map (shift_entry off) series)"
proof (rule extend_items_fresh)
  have all: "\<And>t v. (t, v) \<in> set series \<Longrightarrow> valid_datetime t \<and> year t = y0"
    using ref by (auto simp: reference_series_def list_all_iff)
  show "replace_year t (year t + off) = Inr (shift_year off t)" if "(t, v) \<in> set series" for t v
  proof -
    have "valid_datetime t" "year t = y0" using all[OF that] by simp_all
    moreover have "\<not> is_leap y0" using ref by (simp add: reference_series_def)
    ultimately show ?thesis
      using replace_year_common[of t "year t + off"] lo hi by (simp add: shift_year_def)
  qed
  have yr: "year t = y0" if "(t, v) \<in> set series" for t v using all[OF that] by simp
  have "distinct (map fst series)" using ref by (simp add: reference_series_def)
  then show "distinct (map (shift_year off) (map fst series))"
    using yr by (rule distinct_shift_year)
  show "shift_year off ` fst ` set series \<inter> fst ` set ext = {}"
  proof -
    have "year (shift_year off t) = y0 + off" if "t \<in> fst ` set series" for t
    proof -
      from that obtain v where "(t, v) \<in> set series" by auto
      then show ?thesis using yr by (simp add: shift_year_def)
    qed
    then show ?thesis using fresh by blast
  qed
qed

lemma extend_years_reference:
  assumes rp: "reference_series hp yp" and rc: "reference_series hc yc"
  shows "distinct offs \<Longrightarrow>
     \<forall>off \<in> set offs. 1 \<le> yp + off \<and> yp + off \<le> 9999 \<and> 1 \<le> yc + off \<and> yc + off \<le> 9999 \<Longrightarrow>
     \<forall>k \<in> fst ` set ep. \<forall>off \<in> set offs. year k \<noteq> yp + off \<Longrightarrow>
     \<forall>k \<in> fst ` set ec. \<forall>off \<in> set offs. year k \<noteq> yc + off \<Longrightarrow>
     extend_years offs hp hc (ep, ec) =
       Inr (ep @ concat (map (\<lambda>off. map (shift_entry off) hp) offs),
            ec @ concat (map (\<lambda>off. map (shift_entry off) hc) offs))"
proof (induction offs arbitrary: ep ec)
  case Nil
  then show ?case by simp
next
  case (Cons off offs)
  have yrp: "\<And>t v. (t, v) \<in> set hp \<Longrightarrow> year t = yp"
    using rp by (auto simp: reference_series_def list_all_iff)
  have yrc: "\<And>t v. (t, v) \<in> set hc \<Longrightarrow> year t = yc"
    using rc by (auto simp: reference_series_def list_all_iff)
  have e1: "extend_items off hp ep = Inr (ep @ map (shift_entry off) hp)"
    using Cons.prems by (intro extend_items_reference[OF rp]) auto
  have e2: "extend_items off hc ec = Inr (ec @ map (shift_entry off) hc)"
    using Cons.prems by (intro extend_items_reference[OF rc]) auto
  have d: "distinct offs" and notin: "off \<notin> set offs" using Cons.prems(1) by simp_all
  have rng: "\<forall>off \<in> set offs. 1 \<le> yp + off \<and> yp + off \<le> 9999 \<and> 1 \<le> yc + off \<and> yc + off \<le> 9999"
    using Cons.prems(2) by simp
  have f1: "\<forall>k \<in> fst ` set (ep @ map (shift_entry off) hp). \<forall>off' \<in> set offs. year k \<noteq> yp + off'"
  proof (intro ballI)
    fix k off' assume k: "k \<in> fst ` set (ep @ map (shift_entry off) hp)" and o: "off' \<in> set offs"
    then consider "k \<in> fst ` set ep" | t v where "(t, v) \<in> set hp" "k = shift_year off t"
      by (auto simp: shift_entry_def)
    then show "year k \<noteq> yp + off'"
    proof cases
      case 1
      then show ?thesis using Cons.prems(3) o by auto
    next
      case 2
      then have "year k = yp + off" using yrp by (simp add: shift_year_def)
      then show ?thesis using o notin by auto
    qed
  qed
  have f2: "\<forall>k \<in> fst ` set (ec @ map (shift_entry off) hc). \<forall>off' \<in> set offs. year k \<noteq> yc + off'"
  proof (intro ballI)
    fix k off' assume k: "k \<in> fst ` set (ec @ map (shift_entry off) hc)" and o: "off' \<in> set offs"
    then consider "k \<in> fst ` set ec" | t v where "(t, v) \<in> set hc" "k = shift_year off t"
      by (auto simp: shift_entry_def)
    then show "year k \<noteq> yc + off'"
    proof cases
      case 1
      then show ?thesis using Cons.prems(4) o by auto
    next
      case 2
      then have "year k = yc + off" using yrc by (simp add: shift_year_def)
      then show ?thesis using o notin by auto
    qed
  qed
  show ?case
    using Cons.IH[OF d rng f1 f2] by (simp add: e1 e2)
qed

lemma extend_items_distinct:
  "extend_items off items ext = Inr ext' \<Longrightarrow> distinct (map fst ext) \<Longrightarrow> distinct (map fst ext')"
proof (induction items arbitrary: ext)
  case Nil
  then show ?case by simp
next
  case (Cons x items)
  obtain t v where x: "x = (t, v)" by (cases x)
  show ?case
  proof (cases "replace_year t (year t + off)")
    case (Inl e)
    with Cons.prems show ?thesis by (simp add: x)
  next
    case (Inr nt)
    with Cons.prems have "extend_items off items (dict_set ext nt v) = Inr ext'" by (simp add: x)
    moreover have "distinct (map fst (dict_set ext nt v))"
      using Cons.prems(2) by (rule distinct_dict_set)
    ultimately show ?thesis by (rule Cons.IH)
  qed
qed

lemma extend_years_distinct:
  "extend_years offs hp hc (ep, ec) = Inr (ep', ec') \<Longrightarrow>
   distinct (map fst ep) \<Longrightarrow> distinct (map fst ec) \<Longrightarrow>
   distinct (map fst ep') \<and> distinct (map fst ec')"
proof (induction offs arbitrary: ep ec)
  case Nil
  then show ?case by simp
next
  case (Cons off offs)
  from Cons.prems(1) obtain ep1 where e1: "extend_items off hp ep = Inr ep1"
    by (cases "extend_items off hp ep") simp_all
  from Cons.prems(1) e1 obtain ec1 where e2: "extend_items off hc ec = Inr ec1"
    by (cases "extend_items off hc ec") simp_all
  have "extend_years offs hp hc (ep1, ec1) = Inr (ep', ec')"
    using Cons.prems(1) by (simp add: e1 e2)
  moreover have "distinct (map fst ep1)" using e1 Cons.prems(2) by (rule extend_items_distinct)
  moreover have "distinct (map fst ec1)" using e2 Cons.prems(3) by (rule extend_items_distinct)
  ultimately show ?case by (rule Cons.IH)
qed

lemma length_shifted_series: "length (shifted_series series years) = nat years * length series"
  by (simp add: shifted_series_alt py_range_def length_concat comp_def sum_list_triv)

text \<open>
  C6 (amended). For reference series (dictionaries of valid timestamps) that each lie in
  a single non-leap year, and every horizon \<open>Y \<ge> 1\<close> whose last target year
  \<open>referenceYear + Y - 1\<close> does not exceed 9999, the largest year a datetime can hold,
  the horizon extender returns for each series the mapping that lists, for the offsets
  \<open>0, \<dots>, Y - 1\<close> in turn, every reference entry with only its year rewritten to
  \<open>referenceYear + offset\<close> and its value unchanged: exactly \<open>Y \<times> length\<close> entries with
  pairwise distinct timestamps.
\<close>

theorem extend_data_to_years_reference:
  assumes "reference_series hp yp" and "reference_series hc yc"
    and "1 \<le> Y" and "1 \<le> yp" and "1 \<le> yc" and "yp + Y - 1 \<le> 9999" and "yc + Y - 1 \<le> 9999"
  shows "extend_data_to_years hp hc Y = Inr (shifted_series hp Y, shifted_series hc Y)
       \<and> distinct (map fst (shifted_series hp Y)) \<and> distinct (map fst (shifted_series hc Y))
       \<and> length (shifted_series hp Y) = nat Y * length hp
       \<and> length (shifted_series hc Y) = nat Y * length hc"
proof -
  have d: "distinct (py_range Y)"
    by (simp add: py_range_def distinct_map inj_on_def)
  have rng: "\<forall>off \<in> set (py_range Y).
      1 \<le> yp + off \<and> yp + off \<le> 9999 \<and> 1 \<le> yc + off \<and> yc + off \<le> 9999"
    using assms(3-7) by (auto simp: py_range_def)
  have res: "extend_data_to_years hp hc Y = Inr (shifted_series hp Y, shifted_series hc Y)"
    using extend_years_reference[OF assms(1,2) d rng, of "[]" "[]"]
    by (simp add: extend_data_to_years_def shifted_series_alt)
  then have "extend_years (py_range Y) hp hc ([], []) = Inr (shifted_series hp Y, shifted_series hc Y)"
    by (simp add: extend_data_to_years_def)
  then have "distinct (map fst (shifted_series hp Y)) \<and> distinct (map fst (shifted_series hc Y))"
    by (rule extend_years_distinct) simp_all
  then show ?thesis using res by (simp add: length_shifted_series)
qed


lemmas calendar_eval =
  reference_series_def is_leap_def valid_datetime_def valid_date_def days_in_month_def

theorem extend_data_to_years_reference_witness:
  "reference_series example_production 1998 \<and> reference_series example_consumption 1998 \<and>
   extend_data_to_years example_production example_consumption 5 =
     Inr (shifted_series example_production 5, shifted_series example_consumption 5) \<and>
   length (shifted_series example_production 5) = 10 \<and>
   length (shifted_series example_consumption 5) = 15 \<and>
   map (\<lambda>(t, v). (year t, hour t, v)) (shifted_series example_production 2) =
     [(1998, 20, 3), (1998, 21, 4), (1999, 20, 3), (1999, 21, 4)]"
proof -
  have rp: "reference_series example_production 1998"
    by (simp add: calendar_eval example_production_def example_hour_def)
  have rc: "reference_series example_consumption 1998"
    by (simp add: calendar_eval example_consumption_def example_hour_def)
  have s2: "map (\<lambda>(t, v). (year t, hour t, v)) (shifted_series example_production 2) =
     [(1998, 20, 3), (1998, 21, 4), (1999, 20, 3), (1999, 21, 4)]"
    by (simp add: shifted_series_def py_range_def upt_rec example_production_def example_hour_def)
  show ?thesis
    using rp rc s2 extend_data_to_years_reference[OF rp rc, of 5]
    by (simp add: example_production_def example_consumption_def)
qed

text \<open>
  C6 as stated, for every horizon \<open>Y \<ge> 1\<close>, fails at the end of the calendar: a
  reference series in the non-leap year 9999 extended over two years makes
  \<^verbatim>\<open>replace(year=10000)\<close> raise \<^verbatim>\<open>ValueError\<close>, and no mapping is produced.
\<close>

theorem extend_data_to_years_counterexample:
  "reference_series last_year_series 9999 \<and> (1 :: int) \<le> 2 \<and>
   extend_data_to_years last_year_series last_year_series 2 = Inl ValueError"
  by (simp add: calendar_eval last_year_series_def extend_data_to_years_def py_range_def upt_rec
      replace_year_def dict_set_def)

section \<open>The daily indicators\<close>

lemma day_items_Cons:
  "day_items ((t, v) # xs) dy = (if date t = dy then (t, v) # day_items xs dy else day_items xs dy)"
  by (simp add: day_items_def)

lemma group_loop_step:
  "group_loop ((t, v) # items) g =
     group_loop items
       (dict_set (if dict_has g (date t) then g else dict_set g (date t) []) (date t)
          (dict_get g (date t) [] @ [v]))"
proof (cases "dict_has g (date t)")
  case True
  then have "date t \<in> fst ` set g" by (simp add: dict_has_iff)
  then have "dict_item g (date t) = Inr (dict_get g (date t) [])" by (rule dict_item_get)
  with True show ?thesis by (simp add: Let_def)
next
  case False
  then have "date t \<notin> fst ` set g" by (simp add: dict_has_iff)
  then have a: "dict_get g (date t) [] = []" by (rule dict_get_absent)
  have "dict_item (dict_set g (date t) []) (date t) = Inr []"
    by (simp add: dict_item_def map_of_dict_set)
  with False a show ?thesis by (simp add: Let_def)
qed

lemma group_loop_char:
  "\<exists>g'. group_loop items g = Inr g'
      \<and> fst ` set g' = fst ` set g \<union> date ` fst ` set items
      \<and> (distinct (map fst g) \<longrightarrow> distinct (map fst g'))
      \<and> (\<forall>d. dict_get g' d [] = dict_get g d [] @ map snd (day_items items d))"
proof (induction items arbitrary: g)
  case Nil
  then show ?case by (simp add: day_items_def)
next
  case (Cons x items)
  obtain t v where x: "x = (t, v)" by (cases x)
  define g1 where "g1 = (if dict_has g (date t) then g else dict_set g (date t) [])"
  define g2 where "g2 = dict_set g1 (date t) (dict_get g (date t) [] @ [v])"
  have step: "group_loop (x # items) g = group_loop items g2"
    unfolding x g2_def g1_def by (rule group_loop_step)
  have k2: "fst ` set g2 = insert (date t) (fst ` set g)"
    by (auto simp: g2_def g1_def keys_dict_set)
  have d2: "distinct (map fst g) \<Longrightarrow> distinct (map fst g2)"
    by (simp add: g2_def g1_def distinct_dict_set)
  have v2: "dict_get g2 d [] @ map snd (day_items items d) =
            dict_get g d [] @ map snd (day_items (x # items) d)" for d
    by (simp add: g2_def g1_def x day_items_Cons dict_get_dict_set)
  from Cons.IH[of g2] obtain g' where ih:
    "group_loop items g2 = Inr g'
      \<and> fst ` set g' = fst ` set g2 \<union> date ` fst ` set items
      \<and> (distinct (map fst g2) \<longrightarrow> distinct (map fst g'))
      \<and> (\<forall>d. dict_get g' d [] = dict_get g2 d [] @ map snd (day_items items d))"
    by (elim exE) (rule that)
  have a: "group_loop (x # items) g = Inr g'" using step ih by simp
  have b: "fst ` set g' = fst ` set g \<union> date ` fst ` set (x # items)"
    using ih k2 by (auto simp: x)
  have c: "distinct (map fst g) \<longrightarrow> distinct (map fst g')" using ih d2 by simp
  have d: "\<forall>d. dict_get g' d [] = dict_get g d [] @ map snd (day_items (x # items) d)"
  proof
    fix d
    have "dict_get g' d [] = dict_get g2 d [] @ map snd (day_items items d)"
      using ih by (cases d) simp
    then show "dict_get g' d [] = dict_get g d [] @ map snd (day_items (x # items) d)"
      using v2 by simp
  qed
  show ?case
    apply (rule exI[of _ g'])
    using a b c d by simp
qed

lemma group_loop_empty:
  "\<exists>g'. group_loop items [] = Inr g' \<and> fst ` set g' = date ` fst ` set items
      \<and> distinct (map fst g') \<and> (\<forall>d. dict_get g' d [] = map snd (day_items items d))"
proof -
  from group_loop_char[of items "[]"] obtain g' where ih:
    "group_loop items [] = Inr g'
      \<and> fst ` set g' = fst ` set ([] :: (cal_date, real list) dict) \<union> date ` fst ` set items
      \<and> (distinct (map fst ([] :: (cal_date, real list) dict)) \<longrightarrow> distinct (map fst g'))
      \<and> (\<forall>d. dict_get g' d [] = dict_get [] d [] @ map snd (day_items items d))"
    by (elim exE) (rule that)
  have "dict_get g' d [] = map snd (day_items items d)" for d
    using ih by (cases d) (simp add: dict_get_Nil)
  then show ?thesis
    apply (intro exI[of _ g'])
    using ih by simp
qed

lemma daily_loop_fold:
  "set ks \<subseteq> fst ` set gp \<Longrightarrow>
   daily_loop f gp gc ks daily = Inr (fold (daily_step f gp gc) ks daily)"
proof (induction ks arbitrary: daily)
  case Nil
  then show ?case by simp
next
  case (Cons k ks)
  have a: "dict_item gp k = Inr (dict_get gp k [])" using Cons.prems by (simp add: dict_item_get)
  have b: "dict_has gc k \<Longrightarrow> dict_item gc k = Inr (dict_get gc k [])"
    by (simp add: dict_has_iff dict_item_get)
  show ?case
    using Cons.IH Cons.prems a b by (simp add: daily_step_def)
qed

lemma map_of_daily_fold:
  "map_of (fold (daily_step f gp gc) ks daily) d =
     (if d \<in> set ks \<and> d \<in> fst ` set gc then Some (f (dict_get gp d []) (dict_get gc d []))
      else map_of daily d)"
proof (induction ks arbitrary: daily)
  case Nil
  then show ?case by simp
next
  case (Cons k ks)
  have a: "map_of (fold (daily_step f gp gc) (k # ks) daily) d =
        (if d \<in> set ks \<and> d \<in> fst ` set gc then Some (f (dict_get gp d []) (dict_get gc d []))
         else map_of (daily_step f gp gc k daily) d)"
    using Cons.IH[of "daily_step f gp gc k daily"] by simp
  have b: "map_of (daily_step f gp gc k daily) d =
        (if d = k \<and> d \<in> fst ` set gc then Some (f (dict_get gp d []) (dict_get gc d []))
         else map_of daily d)"
    by (auto simp: daily_step_def map_of_dict_set dict_has_iff)
  show ?case unfolding a b by auto
qed

lemma daily_indicator_char:
  "\<exists>daily. daily_indicator f hp hc = Inr daily \<and>
     (\<forall>d. map_of daily d =
        (if d \<in> date ` fst ` set hp \<and> d \<in> date ` fst ` set hc
         then Some (f (map snd (day_items hp d)) (map snd (day_items hc d))) else None))"
proof -
  from group_loop_empty[of hp] obtain gp where p:
    "group_loop hp [] = Inr gp \<and> fst ` set gp = date ` fst ` set hp
      \<and> distinct (map fst gp) \<and> (\<forall>d. dict_get gp d [] = map snd (day_items hp d))"
    by (elim exE) (rule that)
  from group_loop_empty[of hc] obtain gc where c:
    "group_loop hc [] = Inr gc \<and> fst ` set gc = date ` fst ` set hc
      \<and> distinct (map fst gc) \<and> (\<forall>d. dict_get gc d [] = map snd (day_items hc d))"
    by (elim exE) (rule that)
  have vp: "dict_get gp d [] = map snd (day_items hp d)" for d using p by (cases d) simp
  have vc: "dict_get gc d [] = map snd (day_items hc d)" for d using c by (cases d) simp
  have kp: "fst ` set gp = date ` fst ` set hp" using p by simp
  have kc: "fst ` set gc = date ` fst ` set hc" using c by simp
  let ?daily = "fold (daily_step f gp gc) (map fst gp) []"
  have r: "daily_indicator f hp hc = Inr ?daily"
    using p c daily_loop_fold[of "map fst gp" gp f gc "[]"] by (simp add: daily_indicator_def)
  have m: "map_of ?daily d =
        (if d \<in> date ` fst ` set hp \<and> d \<in> date ` fst ` set hc
         then Some (f (map snd (day_items hp d)) (map snd (day_items hc d))) else None)" for d
    using kp kc by (simp add: map_of_daily_fold vp vc)
  show ?thesis
    apply (rule exI[of _ ?daily])
    using r m by simp
qed

lemma sum_min_prod_load_Cons:
  "sum_min_prod_load (p # ps) (c # cs) = min p c + sum_min_prod_load ps cs"
  by (simp add: sum_min_prod_load_def)

lemma sum_min_prod_load_Nil: "sum_min_prod_load [] cs = 0" "sum_min_prod_load ps [] = 0"
  by (simp_all add: sum_min_prod_load_def)

lemma sum_min_nonneg:
  "list_all (\<lambda>p. 0 \<le> p) ps \<Longrightarrow> list_all (\<lambda>c. 0 \<le> c) cs \<Longrightarrow> 0 \<le> sum_min_prod_load ps cs"
proof (induction ps arbitrary: cs)
  case Nil
  then show ?case by (simp add: sum_min_prod_load_Nil)
next
  case (Cons p ps)
  then show ?case
    by (cases cs) (simp_all add: sum_min_prod_load_Nil sum_min_prod_load_Cons)
qed

lemma sum_min_le_production:
  "list_all (\<lambda>p. 0 \<le> p) ps \<Longrightarrow> sum_min_prod_load ps cs \<le> sum_list ps"
proof (induction ps arbitrary: cs)
  case Nil
  then show ?case by (simp add: sum_min_prod_load_Nil)
next
  case (Cons p ps)
  show ?case
  proof (cases cs)
    case Nil
    have "0 \<le> sum_list (p # ps)" using Cons.prems by (intro sum_list_nonneg) (auto simp: list_all_iff)
    then show ?thesis using Nil by (simp add: sum_min_prod_load_Nil)
  next
    case (Cons c cs')
    have "sum_min_prod_load ps cs' \<le> sum_list ps" using Cons.IH Cons.prems by simp
    then show ?thesis using Cons by (simp add: sum_min_prod_load_Cons)
  qed
qed

lemma sum_min_le_consumption:
  "list_all (\<lambda>c. 0 \<le> c) cs \<Longrightarrow> sum_min_prod_load ps cs \<le> sum_list cs"
proof (induction cs arbitrary: ps)
  case Nil
  then show ?case by (simp add: sum_min_prod_load_Nil)
next
  case (Cons c cs)
  show ?case
  proof (cases ps)
    case Nil
    have "0 \<le> sum_list (c # cs)" using Cons.prems by (intro sum_list_nonneg) (auto simp: list_all_iff)
    then show ?thesis using Nil by (simp add: sum_min_prod_load_Nil)
  next
    case (Cons p ps')
    have "sum_min_prod_load ps' cs \<le> sum_list cs" using Cons.IH Cons.prems by simp
    then show ?thesis using Cons by (simp add: sum_min_prod_load_Cons)
  qed
qed

lemma ratio_unit_interval:
  fixes a b :: real
  assumes "0 \<le> a" "a \<le> b"
  shows "0 \<le> (if b \<noteq> 0 then a / b else 0) \<and> (if b \<noteq> 0 then a / b else 0) \<le> 1"
proof (cases "b = 0")
  case True
  then show ?thesis by simp
next
  case False
  then have "0 < b" using assms by simp
  then show ?thesis using assms by simp
qed

lemma self_consumption_day_bounds:
  assumes "list_all (\<lambda>p. 0 \<le> p) ps" "list_all (\<lambda>c. 0 \<le> c) cs"
  shows "0 \<le> self_consumption_day ps cs \<and> self_consumption_day ps cs \<le> 1"
  unfolding self_consumption_day_def Let_def
  using sum_min_nonneg[OF assms] sum_min_le_production[OF assms(1), of cs]
  by (rule ratio_unit_interval)

lemma self_sufficiency_day_bounds:
  assumes "list_all (\<lambda>p. 0 \<le> p) ps" "list_all (\<lambda>c. 0 \<le> c) cs"
  shows "0 \<le> self_sufficiency_day ps cs \<and> self_sufficiency_day ps cs \<le> 1"
  unfolding self_sufficiency_day_def Let_def
  using sum_min_nonneg[OF assms] sum_min_le_consumption[OF assms(2), of ps]
  by (rule ratio_unit_interval)

lemma daily_indicator_day:
  assumes "dy \<in> date ` fst ` set hp" "dy \<in> date ` fst ` set hc"
  shows "\<exists>daily. daily_indicator f hp hc = Inr daily \<and>
           map_of daily dy = Some (f (map snd (day_items hp dy)) (map snd (day_items hc dy)))"
proof -
  from daily_indicator_char[of f hp hc] obtain daily where ih:
    "daily_indicator f hp hc = Inr daily \<and>
     (\<forall>d. map_of daily d =
        (if d \<in> date ` fst ` set hp \<and> d \<in> date ` fst ` set hc
         then Some (f (map snd (day_items hp d)) (map snd (day_items hc d))) else None))"
    by (elim exE) (rule that)
  have r: "daily_indicator f hp hc = Inr daily" using ih by (rule conjunct1)
  have "\<forall>d. map_of daily d =
        (if d \<in> date ` fst ` set hp \<and> d \<in> date ` fst ` set hc
         then Some (f (map snd (day_items hp d)) (map snd (day_items hc d))) else None)"
    using ih by (rule conjunct2)
  then have "map_of daily dy =
        (if dy \<in> date ` fst ` set hp \<and> dy \<in> date ` fst ` set hc
         then Some (f (map snd (day_items hp dy)) (map snd (day_items hc dy))) else None)"
    by (rule spec)
  then have "map_of daily dy = Some (f (map snd (day_items hp dy)) (map snd (day_items hc dy)))"
    using assms by simp
  with r show ?thesis by (intro exI[of _ daily]) simp
qed

text \<open>What does hold of the daily ratios: for every day that appears in both daily
  groupings and whose hourly values are non-negative, the daily self-consumption and the
  daily self-sufficiency are computed and lie in \<open>[0, 1]\<close>.\<close>

lemma daily_ratios_bounds:
  assumes "dy \<in> date ` fst ` set hp" and "dy \<in> date ` fst ` set hc"
    and "list_all (\<lambda>(t, v). 0 \<le> v) (day_items hp dy)"
    and "list_all (\<lambda>(t, v). 0 \<le> v) (day_items hc dy)"
  shows "\<exists>sc ss a b.
           calculate_self_consumption_daily hp hc = Inr sc \<and> map_of sc dy = Some a \<and>
           calculate_self_sufficiency_daily hp hc = Inr ss \<and> map_of ss dy = Some b \<and>
           0 \<le> a \<and> a \<le> 1 \<and> 0 \<le> b \<and> b \<le> 1"
proof -
  let ?ps = "map snd (day_items hp dy)" and ?cs = "map snd (day_items hc dy)"
  have np: "list_all (\<lambda>p. 0 \<le> p) ?ps"
    using assms(3) by (simp add: list_all_iff case_prod_unfold)
  have nc: "list_all (\<lambda>c. 0 \<le> c) ?cs"
    using assms(4) by (simp add: list_all_iff case_prod_unfold)
  from daily_indicator_day[OF assms(1,2), of self_consumption_day] obtain sc where sc0:
    "daily_indicator self_consumption_day hp hc = Inr sc"
    "map_of sc dy = Some (self_consumption_day ?ps ?cs)"
    by (elim exE conjE) (rule that)
  from daily_indicator_day[OF assms(1,2), of self_sufficiency_day] obtain ss where ss0:
    "daily_indicator self_sufficiency_day hp hc = Inr ss"
    "map_of ss dy = Some (self_sufficiency_day ?ps ?cs)"
    by (elim exE conjE) (rule that)
  have sc: "calculate_self_consumption_daily hp hc = Inr sc"
    "map_of sc dy = Some (self_consumption_day ?ps ?cs)"
    using sc0 by (simp_all add: calculate_self_consumption_daily_def)
  have ss: "calculate_self_sufficiency_daily hp hc = Inr ss"
    "map_of ss dy = Some (self_sufficiency_day ?ps ?cs)"
    using ss0 by (simp_all add: calculate_self_sufficiency_daily_def)
  show ?thesis
    apply (rule exI[of _ sc], rule exI[of _ ss])
    apply (rule exI[of _ "self_consumption_day ?ps ?cs"])
    apply (rule exI[of _ "self_sufficiency_day ?ps ?cs"])
    using sc ss self_consumption_day_bounds[OF np nc] self_sufficiency_day_bounds[OF np nc]
    by simp
qed

lemmas daily_eval =
  calculate_self_consumption_daily_def calculate_self_sufficiency_daily_def
  calculate_neeg_daily_def daily_indicator_def
  self_consumption_day_def self_sufficiency_day_def neeg_day_def sum_min_prod_load_def
  example_production_def example_consumption_def example_hour_def date_def
  Let_def dict_get_def dict_set_def dict_has_def dict_item_def

text \<open>
  C7 at its failing input. The production series \<open>{20:00: 3, 21:00: 4}\<close> and the
  consumption series \<open>{21:00: 4, 20:00: 3}\<close> of 5 February 1998 hold the same value at
  every hour of the day, are non-negative and have the non-zero total 7, so both daily
  ratios should be exactly 1. The hours are listed in different orders, and the
  positional pairing (\<^verbatim>\<open>zip\<close>) of the per-day value lists compares 20:00 with 21:00:
  both ratios are \<open>(min 3 4 + min 4 3) / 7 = 6 / 7\<close>.
\<close>

theorem daily_ratios_misaligned:
  "map_of example_production_reordered = map_of example_production \<and>
   sum_list (map snd example_production) = 7 \<and>
   calculate_self_consumption_daily example_production example_production_reordered =
     Inr [((1998, 2, 5), 6 / 7)] \<and>
   calculate_self_sufficiency_daily example_production example_production_reordered =
     Inr [((1998, 2, 5), 6 / 7)]"
proof -
  have "map_of example_production_reordered = map_of example_production"
    by (auto simp: example_production_reordered_def example_production_def example_hour_def
        fun_eq_iff)
  then show ?thesis
    by (simp add: daily_eval example_production_reordered_def)
qed

text \<open>What does hold of the daily NEEG: it is computed and non-negative for every day in
  both groupings, and for value lists of the same length it is 0 exactly when the lists
  are equal position by position.\<close>

lemma neeg_day_nonneg: "0 \<le> neeg_day ps cs"
proof -
  have "0 \<le> sum_list (map (\<lambda>(p, c). \<bar>p - c\<bar>) (zip ps cs))"
    by (rule sum_list_nonneg) auto
  then show ?thesis by (simp add: neeg_day_def)
qed

lemma neeg_day_zero_iff:
  "length ps = length cs \<Longrightarrow> neeg_day ps cs = 0 \<longleftrightarrow> ps = cs"
proof (induction ps cs rule: list_induct2)
  case Nil
  then show ?case by (simp add: neeg_day_def)
next
  case (Cons p ps c cs)
  have nn: "0 \<le> sum_list (map (\<lambda>(p, c). \<bar>p - c\<bar>) (zip ps cs))"
    by (rule sum_list_nonneg) auto
  have "neeg_day (p # ps) (c # cs) = 0 \<longleftrightarrow>
        \<bar>p - c\<bar> + sum_list (map (\<lambda>(p, c). \<bar>p - c\<bar>) (zip ps cs)) = 0"
    by (simp add: neeg_day_def)
  also have "\<dots> \<longleftrightarrow> p = c \<and> sum_list (map (\<lambda>(p, c). \<bar>p - c\<bar>) (zip ps cs)) = 0"
    using nn by auto
  also have "\<dots> \<longleftrightarrow> p = c \<and> neeg_day ps cs = 0"
    by (simp add: neeg_day_def)
  finally show ?case using Cons.IH by simp
qed

lemma calculate_neeg_daily_nonneg:
  assumes "dy \<in> date ` fst ` set hp" "dy \<in> date ` fst ` set hc"
  shows "\<exists>daily e. calculate_neeg_daily hp hc = Inr daily \<and> map_of daily dy = Some e \<and> 0 \<le> e"
proof -
  from daily_indicator_day[OF assms, of neeg_day] obtain daily where d:
    "daily_indicator neeg_day hp hc = Inr daily"
    "map_of daily dy = Some (neeg_day (map snd (day_items hp dy)) (map snd (day_items hc dy)))"
    by (elim exE conjE) (rule that)
  show ?thesis
    apply (rule exI[of _ daily])
    apply (rule exI[of _ "neeg_day (map snd (day_items hp dy)) (map snd (day_items hc dy))"])
    using d neeg_day_nonneg by (simp add: calculate_neeg_daily_def)
qed

text \<open>
  C8 at its failing inputs. The production series has the hours 20:00 and 21:00, the
  consumption series only 20:00 with the same value: \<^verbatim>\<open>zip\<close> drops the unmatched hour and
  the daily NEEG is 0, although production (4) and consumption (absent, 0) differ at
  21:00. And for two series that are equal at every hour but listed in different orders
  the daily NEEG is \<open>1 / 500\<close>, not 0.
\<close>

theorem calculate_neeg_daily_misaligned:
  "calculate_neeg_daily example_production example_short_consumption = Inr [((1998, 2, 5), 0)] \<and>
   dict_get example_production (example_hour 21) 0 = 4 \<and>
   dict_get example_short_consumption (example_hour 21) 0 = 0 \<and>
   map_of example_production_reordered = map_of example_production \<and>
   calculate_neeg_daily example_production example_production_reordered =
     Inr [((1998, 2, 5), 1 / 500)]"
proof -
  have "map_of example_production_reordered = map_of example_production"
    by (auto simp: example_production_reordered_def example_production_def example_hour_def
        fun_eq_iff)
  then show ?thesis
    by (simp add: daily_eval example_short_consumption_def example_production_reordered_def)
qed

section \<open>The objective function\<close>

lemmas pipeline_eval =
  npv_and_self_sufficiency_def example_env_def py_int_def panel_low_cost_def panel_standard_def
  panel_high_efficiency_def get_production_def dict_set_def dict_has_def dict_item_def dict_get_def
  load_consumers_data_def get_cons_by_constype_def range_step6_def example_samples_def
  feb1998_time_def Let_def aggregate_hourly_consumption_def upt_rec
  extend_data_to_years_def py_range_def glob_Y_def replace_year_def valid_date_def
  days_in_month_def is_leap_def calculate_monthly_costs_def glob_c_grid_def glob_c_DAM_def
  calculate_npv_def py_pow_def glob_r_def

lemma example_zero:
  "npv_and_self_sufficiency (example_env 0 25) (1, 0, 0) = Inl ZeroDivisionError"
  by (simp add: pipeline_eval)

subsection \<open>Rounding to the nearest double\<close>

lemma rhe_cases: "round_half_even x = \<lfloor>x\<rfloor> \<or> round_half_even x = \<lfloor>x\<rfloor> + 1"
  by (simp add: round_half_even_def Let_def)

lemma rhe_lower: "\<lfloor>x\<rfloor> \<le> round_half_even x"
  using rhe_cases[of x] by auto

lemma rhe_upper: "round_half_even x \<le> \<lfloor>x\<rfloor> + 1"
  using rhe_cases[of x] by auto

lemma rhe_of_int: "round_half_even (of_int k) = k"
  by (simp add: round_half_even_def Let_def)

lemma rhe_mono: "x \<le> y \<Longrightarrow> round_half_even x \<le> round_half_even y"
proof -
  assume xy: "x \<le> y"
  then have fl: "\<lfloor>x\<rfloor> \<le> \<lfloor>y\<rfloor>" by (rule floor_mono)
  show ?thesis
  proof (cases "\<lfloor>x\<rfloor> < \<lfloor>y\<rfloor>")
    case True
    have "round_half_even x \<le> \<lfloor>x\<rfloor> + 1" by (rule rhe_upper)
    also have "\<dots> \<le> \<lfloor>y\<rfloor>" using True by simp
    also have "\<dots> \<le> round_half_even y" by (rule rhe_lower)
    finally show ?thesis .
  next
    case False
    then have eq: "\<lfloor>x\<rfloor> = \<lfloor>y\<rfloor>" using fl by simp
    then have "x - of_int \<lfloor>y\<rfloor> \<le> y - of_int \<lfloor>y\<rfloor>" using xy by simp
    then show ?thesis
      by (auto simp: round_half_even_def Let_def eq)
  qed
qed

lemma rhe_minus: "round_half_even (- x) = - round_half_even x"
proof (cases "x = of_int \<lfloor>x\<rfloor>")
  case True
  then obtain k where "x = of_int k" by blast
  then show ?thesis using rhe_of_int[of k] rhe_of_int[of "- k"] by simp
next
  case False
  then have fm: "\<lfloor>- x\<rfloor> = - \<lfloor>x\<rfloor> - 1"
    by (metis Ints_of_int ceiling_altdef ceiling_def add_diff_cancel_right' Ints_cases
        minus_diff_eq uminus_add_conv_diff minus_minus diff_minus_eq_add)
  have gt: "0 < x - of_int \<lfloor>x\<rfloor>" using False of_int_floor_le[of x] by linarith
  show ?thesis
    using gt by (auto simp: round_half_even_def Let_def fm)
qed

lemma round_double_pos:
  assumes "0 < x" "2 powr of_int e \<le> x" "x < 2 powr of_int (e + 1)"
  shows "round_double x = 2 powr of_int (e - 52) * of_int (round_half_even (x / 2 powr of_int (e - 52)))"
proof -
  have "\<lfloor>log 2 x\<rfloor> = e"
    using assms by (subst floor_log_eq_powr_iff) (simp_all add: add.commute)
  then show ?thesis using assms(1) by (simp add: round_double_def Let_def)
qed

lemma log2_bounds:
  assumes "0 < x"
  shows "2 powr of_int \<lfloor>log 2 x\<rfloor> \<le> x" "x < 2 powr of_int (\<lfloor>log 2 x\<rfloor> + 1)"
proof -
  have "\<lfloor>log 2 x\<rfloor> = \<lfloor>log 2 x\<rfloor>" by simp
  then have "2 powr of_int \<lfloor>log 2 x\<rfloor> \<le> x \<and> x < 2 powr (of_int \<lfloor>log 2 x\<rfloor> + 1)"
    using assms by (subst (asm) floor_log_eq_powr_iff) simp_all
  then show "2 powr of_int \<lfloor>log 2 x\<rfloor> \<le> x" "x < 2 powr of_int (\<lfloor>log 2 x\<rfloor> + 1)"
    by (simp_all add: add.commute)
qed

lemma round_double_range:
  assumes "0 < x"
  shows "2 powr of_int \<lfloor>log 2 x\<rfloor> \<le> round_double x"
    and "round_double x \<le> 2 powr of_int (\<lfloor>log 2 x\<rfloor> + 1)"
proof -
  define e where "e = \<lfloor>log 2 x\<rfloor>"
  define q :: real where "q = 2 powr of_int (e - 52)"
  have q: "0 < q" by (simp add: q_def)
  have rd: "round_double x = q * of_int (round_half_even (x / q))"
    using assms by (simp add: round_double_def Let_def e_def q_def)
  have lo: "2 powr of_int e \<le> x" and hi: "x < 2 powr of_int (e + 1)"
    using log2_bounds[OF assms] by (simp_all add: e_def)
  have qe: "q * 2 ^ 52 = 2 powr of_int e"
  proof -
    have "(2::real) ^ 52 = 2 powr 52" by simp
    then have "q * 2 ^ 52 = 2 powr (of_int (e - 52) + 52)"
      unfolding q_def by (simp only: powr_add)
    then show ?thesis by simp
  qed
  have qe1: "q * 2 ^ 53 = 2 powr of_int (e + 1)"
  proof -
    have "(2::real) ^ 53 = 2 powr 53" by simp
    then have "q * 2 ^ 53 = 2 powr (of_int (e - 52) + 53)"
      unfolding q_def by (simp only: powr_add)
    then show ?thesis by (simp add: add.commute)
  qed
  have "2 ^ 52 \<le> x / q"
    using lo q qe by (simp add: pos_le_divide_eq mult.commute)
  then have "(of_int (2 ^ 52) :: real) \<le> x / q" by simp
  then have "round_half_even (of_int (2 ^ 52)) \<le> round_half_even (x / q)" by (rule rhe_mono)
  then have "(2 ^ 52 :: int) \<le> round_half_even (x / q)" by (simp only: rhe_of_int)
  then have "(2 ^ 52 :: real) \<le> of_int (round_half_even (x / q))"
    by (metis of_int_le_iff of_int_numeral of_int_power)
  then have "q * 2 ^ 52 \<le> q * of_int (round_half_even (x / q))"
    using q by (simp only: mult_le_cancel_left_pos)
  then have "2 powr of_int e \<le> round_double x"
    unfolding qe rd .
  then show "2 powr of_int \<lfloor>log 2 x\<rfloor> \<le> round_double x"
    unfolding e_def .
  have "x / q \<le> 2 ^ 53"
    using hi q qe1 by (simp add: pos_divide_le_eq mult.commute)
  then have "x / q \<le> (of_int (2 ^ 53) :: real)" by simp
  then have "round_half_even (x / q) \<le> round_half_even (of_int (2 ^ 53))" by (rule rhe_mono)
  then have "round_half_even (x / q) \<le> (2 ^ 53 :: int)" by (simp only: rhe_of_int)
  then have "of_int (round_half_even (x / q)) \<le> (2 ^ 53 :: real)"
    by (metis of_int_le_iff of_int_numeral of_int_power)
  then have "q * of_int (round_half_even (x / q)) \<le> q * 2 ^ 53"
    using q by (simp only: mult_le_cancel_left_pos)
  then have "round_double x \<le> 2 powr of_int (e + 1)"
    unfolding qe1 rd .
  then show "round_double x \<le> 2 powr of_int (\<lfloor>log 2 x\<rfloor> + 1)"
    unfolding e_def .
qed

lemma round_double_mono_pos:
  assumes "0 < x" "x \<le> y"
  shows "round_double x \<le> round_double y"
proof -
  have y: "0 < y" using assms by simp
  have le: "\<lfloor>log 2 x\<rfloor> \<le> \<lfloor>log 2 y\<rfloor>"
    using assms by (intro floor_mono) simp
  show ?thesis
  proof (cases "\<lfloor>log 2 x\<rfloor> = \<lfloor>log 2 y\<rfloor>")
    case True
    define q :: real where "q = 2 powr of_int (\<lfloor>log 2 y\<rfloor> - 52)"
    have q: "0 < q" by (simp add: q_def)
    have "x / q \<le> y / q" using assms(2) q by (simp add: divide_right_mono)
    then have "round_half_even (x / q) \<le> round_half_even (y / q)" by (rule rhe_mono)
    then have "q * of_int (round_half_even (x / q)) \<le> q * of_int (round_half_even (y / q))"
      using q by simp
    then show ?thesis
      using assms(1) y True by (simp add: round_double_def Let_def q_def)
  next
    case False
    then have lt: "\<lfloor>log 2 x\<rfloor> + 1 \<le> \<lfloor>log 2 y\<rfloor>" using le by simp
    have "round_double x \<le> 2 powr of_int (\<lfloor>log 2 x\<rfloor> + 1)"
      using assms(1) by (rule round_double_range)
    also have "\<dots> \<le> 2 powr of_int \<lfloor>log 2 y\<rfloor>"
      using lt by (simp only: powr_le_cancel_iff of_int_le_iff)
    also have "\<dots> \<le> round_double y" using y by (rule round_double_range)
    finally show ?thesis .
  qed
qed

lemma round_double_minus: "round_double (- x) = - round_double x"
  by (simp add: round_double_def Let_def rhe_minus)

lemma round_double_nonneg: "0 \<le> x \<Longrightarrow> 0 \<le> round_double x"
proof (cases "x = 0")
  case True
  then show ?thesis by (simp add: round_double_def)
next
  case False
  assume "0 \<le> x"
  with False have x: "0 < x" by simp
  have "0 \<le> (2::real) powr of_int \<lfloor>log 2 x\<rfloor>" by simp
  also have "\<dots> \<le> round_double x" using x by (rule round_double_range)
  finally show ?thesis .
qed

lemma round_double_mono: "x \<le> y \<Longrightarrow> round_double x \<le> round_double y"
proof -
  assume xy: "x \<le> y"
  consider "0 < x" | "x \<le> 0" "0 \<le> y" | "y < 0" by linarith
  then show ?thesis
  proof cases
    case 1
    then show ?thesis using xy by (rule round_double_mono_pos)
  next
    case 2
    have "0 \<le> round_double (- x)" using 2(1) by (intro round_double_nonneg) simp
    then have "round_double x \<le> 0" by (simp add: round_double_minus)
    also have "0 \<le> round_double y" using 2(2) by (rule round_double_nonneg)
    finally show ?thesis .
  next
    case 3
    have "round_double (- y) \<le> round_double (- x)"
      using 3 xy by (intro round_double_mono_pos) simp_all
    then show ?thesis by (simp add: round_double_minus)
  qed
qed

lemma float_rounding_round_double: "float_rounding round_double"
  by (simp add: float_rounding_def round_double_mono) (simp add: round_double_def)

lemma rounded_threshold_le:
  assumes "float_rounding rnd" "rnd m = m" "0 \<le> c"
  shows "rnd (m - rnd c) \<le> m"
proof -
  have mono: "\<And>x y. x \<le> y \<Longrightarrow> rnd x \<le> rnd y" and z: "rnd 0 = 0"
    using assms(1) by (simp_all add: float_rounding_def)
  have "rnd 0 \<le> rnd c" using assms(3) by (rule mono)
  then have "m - rnd c \<le> m" using z by simp
  then have "rnd (m - rnd c) \<le> rnd m" by (rule mono)
  then show ?thesis using assms(2) by simp
qed

lemma comparison_strict:
  assumes "float_rounding rnd" "rnd ss = ss" "ss < rnd (m - rnd c)"
  shows "rnd c < m - ss"
proof (rule ccontr)
  assume "\<not> rnd c < m - ss"
  then have "m - rnd c \<le> ss" by simp
  then have "rnd (m - rnd c) \<le> rnd ss"
    using assms(1) by (simp add: float_rounding_def)
  then show False using assms(2,3) by simp
qed

text \<open>The doubles that the examples below need: the literals 0.1, 0.2, 0.05, 0.03 and 0.5,
  and the rounded differences \<open>0.2 - 0.1\<close>, \<open>0.2 - 0.05\<close>, \<open>0.5 - 0.1\<close>, \<open>0.5 - 0.05\<close> and
  \<open>0.5 - 0.03\<close>.\<close>

lemma rd_tenth: "round_double (1 / 10) = 3602879701896397 / 36028797018963968"
  using round_double_pos[of "1 / 10" "- 4"]
  by (simp add: powr_minus round_half_even_def Let_def)

lemma rd_fifth: "round_double (1 / 5) = 3602879701896397 / 18014398509481984"
  using round_double_pos[of "1 / 5" "- 3"]
  by (simp add: powr_minus round_half_even_def Let_def)

lemma rd_twentieth: "round_double (1 / 20) = 3602879701896397 / 72057594037927936"
  using round_double_pos[of "1 / 20" "- 5"]
  by (simp add: powr_minus round_half_even_def Let_def)

lemma rd_half: "round_double (1 / 2) = 1 / 2"
  using round_double_pos[of "1 / 2" "- 1"]
  by (simp add: powr_minus round_half_even_def Let_def)

lemma rd_tenth_fixed:
  "round_double (3602879701896397 / 36028797018963968) = 3602879701896397 / 36028797018963968"
  using round_double_pos[of "3602879701896397 / 36028797018963968" "- 4"]
  by (simp add: powr_minus round_half_even_def Let_def)

lemma rd_fifth_fixed:
  "round_double (3602879701896397 / 18014398509481984) = 3602879701896397 / 18014398509481984"
  using round_double_pos[of "3602879701896397 / 18014398509481984" "- 3"]
  by (simp add: powr_minus round_half_even_def Let_def)

lemma rd_three_twentieths:
  "round_double (10808639105689191 / 72057594037927936) = 1351079888211149 / 9007199254740992"
  using round_double_pos[of "10808639105689191 / 72057594037927936" "- 3"]
  by (simp add: powr_minus round_half_even_def Let_def)

lemma rd_3_100: "round_double (3 / 100) = 1080863910568919 / 36028797018963968"
  using round_double_pos[of "3 / 100" "- 6"]
  by (simp add: powr_minus round_half_even_def Let_def)

lemma rd_half_minus_tenth:
  "round_double (14411518807585587 / 36028797018963968) = 3602879701896397 / 9007199254740992"
  using round_double_pos[of "14411518807585587 / 36028797018963968" "- 2"]
  by (simp add: powr_minus round_half_even_def Let_def)

lemma rd_half_minus_twentieth:
  "round_double (32425917317067571 / 72057594037927936) = 8106479329266893 / 18014398509481984"
  using round_double_pos[of "32425917317067571 / 72057594037927936" "- 2"]
  by (simp add: powr_minus round_half_even_def Let_def)

lemma rd_half_minus_3_100:
  "round_double (16933534598913065 / 36028797018963968) = 2116691824864133 / 4503599627370496"
  using round_double_pos[of "16933534598913065 / 36028797018963968" "- 2"]
  by (simp add: powr_minus round_half_even_def Let_def)

lemmas double_eval =
  rd_tenth rd_fifth rd_twentieth rd_half rd_tenth_fixed rd_fifth_fixed rd_three_twentieths
  rd_3_100 rd_half_minus_tenth rd_half_minus_twentieth rd_half_minus_3_100

subsection \<open>The constraint checks\<close>

text \<open>
  C1 (amended). For every candidate configuration (three counts truncated to integers)
  whose evaluation reaches the constraint checks, with the required and the computed
  self-sufficiency values a float holds, the rules are applied in this order, the first
  match winning: (1) if the total panel count exceeds \<open>maxPanels\<close> the function returns
  the fixed penalty 1000000, whatever the computed NPV and self-sufficiency; (2)
  otherwise, if the deficit \<open>d = minSelfSufficiency - selfSufficiency\<close> is positive, it
  returns the step-table penalty: 500000, 450000, 400000, 350000 or 300000 according to
  the first of the comparisons \<open>selfSufficiency < minSelfSufficiency - c\<close> that holds in
  floating point, for \<open>c = 0.10, 0.05, 0.03, 0.02, 0.01\<close> in this order, and the linear
  penalty \<open>250000 + d * 1000000\<close> (in floating point) if none holds; each such comparison
  holds only for a deficit strictly greater than the double \<open>c\<close>, so a deficit equal to a
  threshold does not receive that threshold's penalty; (3) otherwise it returns
  \<open>- NPV\<close>. This holds for every rounding that is monotone and leaves 0 alone.
\<close>

theorem constraint_checks_policy:
  assumes "float_rounding rnd" and "rnd m = m" and "rnd ss = ss"
  shows "constraint_checks rnd mp m n1 n2 n3 npv ss =
           (if n1 + n2 + n3 > mp then 1000000
            else if 0 < m - ss then step_penalty rnd m ss
            else - npv)
         \<and> (\<forall>c. ss < rnd (m - rnd c) \<longrightarrow> rnd c < m - ss)"
proof -
  have none: "\<not> ss < rnd (m - rnd c)" if "m \<le> ss" "0 \<le> c" for c
    using rounded_threshold_le[OF assms(1,2) that(2)] that(1) by simp
  have a: "constraint_checks rnd mp m n1 n2 n3 npv ss =
           (if n1 + n2 + n3 > mp then 1000000
            else if 0 < m - ss then step_penalty rnd m ss
            else - npv)"
  proof (cases "m \<le> ss")
    case True
    then show ?thesis
      using none[OF True, of "0.1"] none[OF True, of "0.05"] none[OF True, of "0.03"]
        none[OF True, of "0.02"] none[OF True, of "0.01"]
      by (simp add: constraint_checks_def)
  next
    case False
    then show ?thesis by (simp add: constraint_checks_def step_penalty_def)
  qed
  have b: "\<forall>c. ss < rnd (m - rnd c) \<longrightarrow> rnd c < m - ss"
    using comparison_strict[OF assms(1,3)] by blast
  show ?thesis using a b by (rule conjI)
qed

text \<open>Binary64 rounding is such a rounding. With it, for a required self-sufficiency of
  0.2: eleven panels against a limit of ten, then one panel with the computed
  self-sufficiency 0.1, then one panel with the computed self-sufficiency 0.5.\<close>

theorem constraint_checks_policy_witness:
  "constraint_checks round_double 10 (round_double 0.2) 11 0 0 (- 32) (round_double 0.1) = 1000000 \<and>
   constraint_checks round_double 10 (round_double 0.2) 1 0 0 (- 32) (round_double 0.1) = 450000 \<and>
   constraint_checks round_double 10 (round_double 0.2) 1 0 0 (- 32) (round_double 0.5) = 32"
proof -
  have m: "round_double (round_double 0.2) = round_double 0.2" by (simp add: double_eval)
  have s1: "round_double (round_double 0.1) = round_double 0.1" by (simp add: double_eval)
  have s2: "round_double (round_double 0.5) = round_double 0.5" by (simp add: double_eval)
  show ?thesis
    using constraint_checks_policy[OF float_rounding_round_double m s1, of 10 11 0 0 "- 32"]
      constraint_checks_policy[OF float_rounding_round_double m s1, of 10 1 0 0 "- 32"]
      constraint_checks_policy[OF float_rounding_round_double m s2, of 10 1 0 0 "- 32"]
    by (simp add: step_penalty_def double_eval)
qed

text \<open>
  C1 as stated, with the rung \<open>d \<ge> 0.10\<close>, fails on the boundary, in binary64
  arithmetic as in exact arithmetic. An installation of one low-cost panel with an
  irradiance sample of 9.375 produces 1.5 in an hour in which the six samples of 2.5
  consume 15, so the computed self-sufficiency is \<open>7.5 / 75.0\<close>, the double 0.1. With
  the required self-sufficiency 0.2 the deficit \<open>0.2 - 0.1\<close> is the double 0.1 itself,
  exactly and as computed, and is not below the literal 0.10; the candidate is within
  the panel limit, and the function returns 450000, the second penalty, not the highest.
\<close>

theorem constraint_checks_boundary_counterexample:
  "constraint_checks round_double 10 (round_double 0.2) 1 0 0 (- 32) (round_double 0.1) = 450000 \<and>
   round_double 0.10 \<le> round_double 0.2 - round_double 0.1 \<and>
   round_double 0.10 \<le> round_double (round_double 0.2 - round_double 0.1) \<and>
   (1 :: int) + 0 + 0 \<le> 10"
  by (simp add: constraint_checks_def double_eval)

text \<open>The ideal self-sufficiency of that installation is \<open>1 / 10\<close>; the floats of the run
  (1.5, 15, 7.5, 75) are exact up to the final quotient.\<close>

lemma boundary_installation:
  "map_sum id snd (npv_and_self_sufficiency (example_env (5 / 2) (75 / 8)) (1, 0, 0)) =
     Inr (1 / 10)"
  by (simp add: pipeline_eval)

text \<open>Where rounding decides: one low-cost panel, an irradiance sample of 2.9375 and an
  hour consuming 1 give the computed self-sufficiency 0.4699999999999999 (the double
  \<open>8466767299456531 / 2 ^ 54\<close>), one unit in the last place below the rounded
  \<open>0.5 - 0.03\<close>: the third penalty.\<close>

lemma constraint_checks_rounded_example:
  "constraint_checks round_double 10 (1 / 2) 1 0 0 npv (8466767299456531 / 18014398509481984) = 400000"
  by (simp add: constraint_checks_def double_eval rd_3_100 rd_half_minus_tenth
      rd_half_minus_twentieth rd_half_minus_3_100)

text \<open>
  C2 at its failing inputs. The daily ratios are guarded, the aggregate means and the
  whole-horizon self-sufficiency are not: with no production data there is no common
  day, the daily dictionaries are empty and both aggregate means divide by \<^verbatim>\<open>len({}) = 0\<close>;
  with an appliance that consumed nothing in the window the consumption sum is 0 and
  \<^verbatim>\<open>npv_function\<close> raises \<^verbatim>\<open>ZeroDivisionError\<close>.
\<close>

theorem ratio_division_unguarded:
  "calculate_self_consumption_daily [] example_consumption = Inr [] \<and>
   calculate_total_self_consumption [] = Inl ZeroDivisionError \<and>
   calculate_self_sufficiency_daily [] example_consumption = Inr [] \<and>
   calculate_total_self_sufficiency [] = Inl ZeroDivisionError \<and>
   sum_list (map (\<lambda>row. snd (snd row)) (example_samples 0)) = 0 \<and>
   npv_function (example_env 0 25) (1, 0, 0) = Inl ZeroDivisionError"
  by (simp add: npv_function_def example_zero calculate_total_self_consumption_def
      calculate_total_self_sufficiency_def daily_eval example_samples_def)

end
